theory Spec2Isabelle
  imports Complex_Main
begin

section \<open>BioMonteCarlo: layered mesh, photon and simulation driver\<close>

text \<open>
  The Python sources (\<^verbatim>\<open>mesh.py\<close>, \<^verbatim>\<open>henyey_greenstein.py\<close>, \<^verbatim>\<open>photon.py\<close>,
  \<^verbatim>\<open>simulation.py\<close>) are embedded as HOL functions.
  \<^item> Floating-point numbers are modelled as \<^typ>\<open>real\<close>. Where the float computation
    leaves the finite reals (logarithm of a non-positive draw, a numpy division by zero,
    \<open>arccos\<close> outside \<open>[-1, 1]\<close>), numpy carries on with \<open>inf\<close> or \<open>nan\<close>; the
    model stops there with the error value \<open>NonFinite\<close>.
  \<^item> The global random source is an explicit list of uniform draws, consumed from
    the front; a loop that needs a draw from the empty list stops with \<open>OutOfDraws\<close>.
  \<^item> Every Python exception is a value of the type \<open>error\<close>.
  \<^item> A position or direction is a triple of reals; a property dictionary is a map
    from key strings to reals; the boundary array and the absorption profile are lists
    of reals (arrays of floats).
\<close>

datatype error =
    ValueError
  | IndexError
  | KeyError
  | ZeroDivisionError
  | NonFinite
  | OutOfDraws

type_synonym vec3 = "real \<times> real \<times> real"

type_synonym properties = "string \<rightharpoonup> real"

subsection \<open>Python sequence indexing\<close>

text \<open>\<^verbatim>\<open>xs[i]\<close> on a list or a one-dimensional array: a negative index counts from
  the end, an index out of range raises IndexError.\<close>

definition py_get :: "'a list \<Rightarrow> int \<Rightarrow> error + 'a" where
  "py_get xs i =
     (let n = int (length xs);
          j = (if i < 0 then i + n else i)
      in if j < 0 \<or> n \<le> j then Inl IndexError else Inr (xs ! nat j))"

text \<open>\<^verbatim>\<open>xs[i] = v\<close> with the same index convention.\<close>

definition py_set :: "'a list \<Rightarrow> int \<Rightarrow> 'a \<Rightarrow> error + 'a list" where
  "py_set xs i v =
     (let n = int (length xs);
          j = (if i < 0 then i + n else i)
      in if j < 0 \<or> n \<le> j then Inl IndexError else Inr (xs[nat j := v]))"

text \<open>\<^verbatim>\<open>d[key]\<close> on a dictionary raises KeyError for a missing key.\<close>

definition dict_get :: "properties \<Rightarrow> string \<Rightarrow> error + real" where
  "dict_get d key = (case d key of None \<Rightarrow> Inl KeyError | Some v \<Rightarrow> Inr v)"

text \<open>Sequencing: an exception raised by a statement ends the function with it.\<close>

fun bind_result :: "error + 'a \<Rightarrow> ('a \<Rightarrow> error + 'b) \<Rightarrow> error + 'b" where
  "bind_result (Inl e) f = Inl e"
| "bind_result (Inr x) f = f x"

text \<open>\<^verbatim>\<open>numpy.random.rand()\<close> and \<^verbatim>\<open>numpy.random.uniform()\<close>: the next pending draw.\<close>

definition next_draw :: "real list \<Rightarrow> error + (real \<times> real list)" where
  "next_draw us = (case us of [] \<Rightarrow> Inl OutOfDraws | u # us' \<Rightarrow> Inr (u, us'))"

text \<open>\<^verbatim>\<open>numpy.log\<close> is \<open>-inf\<close> at zero and \<open>nan\<close> below; a numpy float divided by
  zero is \<open>inf\<close> or \<open>nan\<close>. Neither raises: the code goes on with the infinite step.
  The model has no infinite values and stops with \<open>NonFinite\<close>, so a result of the
  model says nothing about what the code does after such a step; a statement about a
  whole trial therefore requires the steps taken to be finite.\<close>

definition np_log :: "real \<Rightarrow> error + real" where
  "np_log x = (if x \<le> 0 then Inl NonFinite else Inr (ln x))"

definition np_divide :: "real \<Rightarrow> real \<Rightarrow> error + real" where
  "np_divide a b = (if b = 0 then Inl NonFinite else Inr (a / b))"

subsection \<open>mesh.py: LayeredMesh\<close>

record layered_mesh =
  layer_boundaries :: "real list"
  layer_properties :: "properties list"

definition LayeredMesh_init :: layered_mesh where
  "LayeredMesh_init = \<lparr>layer_boundaries = [], layer_properties = []\<rparr>"

definition required_keys :: "string list" where
  "required_keys = [''n'', ''mu_s'', ''mu_a'', ''g'']"

text \<open>\<^verbatim>\<open>add_layer\<close> mutates the mesh or raises. The model returns the raised error
  (if any) together with the mesh as it is after the call, so that what a failing call
  leaves behind is part of the result.\<close>

definition add_layer :: "layered_mesh \<Rightarrow> real \<Rightarrow> properties \<Rightarrow> error option \<times> layered_mesh" where
  "add_layer m boundary props =
     (if layer_boundaries m \<noteq> [] \<and> boundary \<le> last (layer_boundaries m)
      then (Some ValueError, m)
      else if \<not> list_all (\<lambda>key. props key \<noteq> None) required_keys
      then (Some ValueError, m)
      else (None,
            m\<lparr>layer_boundaries := layer_boundaries m @ [boundary],
              layer_properties := layer_properties m @ [props]\<rparr>))"

text \<open>\<^verbatim>\<open>numpy.searchsorted(a, key, side='right')\<close> is numpy's binary search: the
  interval \<open>[lo, hi)\<close> is halved, going right when \<open>a[mid] \<le> key\<close>.\<close>

function binsearch_right :: "real list \<Rightarrow> real \<Rightarrow> nat \<Rightarrow> nat \<Rightarrow> nat" where
  "binsearch_right a key lo hi =
     (if lo < hi
      then (let mid = lo + (hi - lo) div 2
            in if a ! mid \<le> key
               then binsearch_right a key (mid + 1) hi
               else binsearch_right a key lo mid)
      else lo)"
  by pat_completeness auto
termination
  by (relation "measure (\<lambda>(a, key, lo, hi). hi - lo)") auto

declare binsearch_right.simps [simp del]

definition searchsorted_right :: "real list \<Rightarrow> real \<Rightarrow> nat" where
  "searchsorted_right a key = binsearch_right a key 0 (length a)"

definition get_layer_index :: "layered_mesh \<Rightarrow> real \<Rightarrow> error + int" where
  "get_layer_index m z =
     (case layer_boundaries m of
        [] \<Rightarrow> Inl IndexError
      | b0 # bs \<Rightarrow>
          if z < b0 \<or> z > last (b0 # bs) then Inr (- 1)
          else Inr (int (searchsorted_right (b0 # bs) z) - 1))"

definition get_properties_at :: "layered_mesh \<Rightarrow> real \<Rightarrow> error + properties option" where
  "get_properties_at m z =
     (case get_layer_index m z of
        Inl e \<Rightarrow> Inl e
      | Inr layer_index \<Rightarrow>
          if layer_index = - 1 then Inr None
          else (case py_get (layer_properties m) layer_index of
                  Inl e \<Rightarrow> Inl e
                | Inr props \<Rightarrow> Inr (Some props)))"

subsection \<open>henyey\_greenstein.py\<close>

text \<open>\<^verbatim>\<open>numpy.arccos\<close>: outside \<open>[-1, 1]\<close> numpy returns \<open>nan\<close>.\<close>

definition np_arccos :: "real \<Rightarrow> error + real" where
  "np_arccos x = (if - 1 \<le> x \<and> x \<le> 1 then Inr (arccos x) else Inl NonFinite)"

text \<open>The function takes the list of pending uniform draws and returns the angle with
  the draws that are left. Both branches draw once. The quotient in the second branch
  is a division of Python floats, which raises on a zero divisor. The cosine is the
  real number the source's expression denotes: the rounding of the double operations,
  and with it the order of the operations, is not modelled, so next to \<open>-1\<close> and \<open>1\<close>
  the double cosine can lie an ulp outside \<open>[-1, 1]\<close> (and \<^verbatim>\<open>numpy.arccos\<close> yield
  \<open>nan\<close>) where the real one lies inside. Nothing below rests on the value of the
  angle except where the arithmetic is exact.\<close>

definition sample_henyey_greenstein :: "real \<Rightarrow> real list \<Rightarrow> error + (real \<times> real list)" where
  "sample_henyey_greenstein g us =
     (case us of
        [] \<Rightarrow> Inl OutOfDraws
      | rnd # us' \<Rightarrow>
          (case (if \<bar>g\<bar> < 1 / 10 ^ 10
                 then Inr (2 * rnd - 1)
                 else if 1 - g + 2 * g * rnd = 0 then Inl ZeroDivisionError
                 else Inr ((1 + g\<^sup>2 - ((1 - g\<^sup>2) / (1 - g + 2 * g * rnd))\<^sup>2) / (2 * g))) of
             Inl e \<Rightarrow> Inl e
           | Inr costheta \<Rightarrow>
               (case np_arccos costheta of
                  Inl e \<Rightarrow> Inl e
                | Inr theta \<Rightarrow> Inr (theta, us'))))"

subsection \<open>photon.py: Photon\<close>

record photon =
  position :: vec3
  direction :: vec3
  path :: "vec3 list"
  weight :: real
  alive :: bool

definition default_position :: vec3 where
  "default_position = (0, 0, 1)"

definition default_direction :: vec3 where
  "default_direction = (0, 0, 1)"

text \<open>The dataclass constructor followed by \<^verbatim>\<open>__post_init__\<close>; a caller that omits
  an argument passes the default above.\<close>

definition Photon_init :: "vec3 \<Rightarrow> vec3 \<Rightarrow> photon" where
  "Photon_init pos dir =
     \<lparr>position = pos, direction = dir, path = [pos], weight = 1, alive = True\<rparr>"

definition vec_add :: "vec3 \<Rightarrow> vec3 \<Rightarrow> vec3" where
  "vec_add a b = (case a of (ax, ay, az) \<Rightarrow> case b of (bx, by, bz) \<Rightarrow> (ax + bx, ay + by, az + bz))"

definition vec_scale :: "vec3 \<Rightarrow> real \<Rightarrow> vec3" where
  "vec_scale a s = (case a of (ax, ay, az) \<Rightarrow> (ax * s, ay * s, az * s))"

definition zcoord :: "vec3 \<Rightarrow> real" where
  "zcoord a = (case a of (ax, ay, az) \<Rightarrow> az)"

definition move :: "photon \<Rightarrow> real \<Rightarrow> error + photon" where
  "move p step_size =
     (case py_get (path p) (- 1) of
        Inl e \<Rightarrow> Inl e
      | Inr last_position \<Rightarrow>
          Inr (p\<lparr>path := path p @ [vec_add last_position (vec_scale (direction p) step_size)]\<rparr>))"

definition scatter :: "photon \<Rightarrow> real \<Rightarrow> real list \<Rightarrow> error + (photon \<times> real list)" where
  "scatter p g us =
     (case sample_henyey_greenstein g us of
        Inl e \<Rightarrow> Inl e
      | Inr (theta, us1) \<Rightarrow>
          (case us1 of
             [] \<Rightarrow> Inl OutOfDraws
           | u2 # us2 \<Rightarrow>
               (let phi = 2 * pi * u2
                in Inr (p\<lparr>direction := (sin theta * cos phi, sin theta * sin phi, cos theta)\<rparr>,
                        us2))))"

definition absorb :: "photon \<Rightarrow> real \<Rightarrow> real \<Rightarrow> photon" where
  "absorb p mu_a step_size =
     (let absorbed = weight p * (1 - exp (- mu_a * step_size))
      in p\<lparr>weight := weight p - absorbed\<rparr>)"

definition default_threshold :: real where
  "default_threshold = 1 / 1000"

definition check_weight :: "photon \<Rightarrow> real \<Rightarrow> photon" where
  "check_weight p threshold = (if weight p < threshold then p\<lparr>alive := False\<rparr> else p)"

subsection \<open>simulation.py: MonteCarloSimulator\<close>

record simulator =
  mesh :: layered_mesh
  num_photons :: int
  initial_photon_direction :: vec3
  photon_paths :: "vec3 list list"
  absorption_profile :: "real list"

text \<open>The default of the constructor's parameter \<^verbatim>\<open>initial_photon_direction\<close>.\<close>

definition default_initial_photon_direction :: vec3 where
  "default_initial_photon_direction = (0, 0, 1)"

definition MonteCarloSimulator_init :: "layered_mesh \<Rightarrow> int \<Rightarrow> vec3 \<Rightarrow> simulator" where
  "MonteCarloSimulator_init m n dir =
     \<lparr>mesh = m, num_photons = n, initial_photon_direction = dir, photon_paths = [],
      absorption_profile = map (\<lambda>b. 0) (butlast (layer_boundaries m))\<rparr>"

text \<open>One pass through the body of the \<^verbatim>\<open>while photon.alive\<close> loop of \<^verbatim>\<open>run\<close>, on
  the absorption profile, the photon and the pending draws. The statements are taken in
  the order Python evaluates them; \<open>bind_result\<close> passes a raised error on.\<close>

definition run_loop_body ::
  "layered_mesh \<Rightarrow> real list \<Rightarrow> photon \<Rightarrow> real list \<Rightarrow> error + (real list \<times> photon \<times> real list)" where
  "run_loop_body m prof p us =
     bind_result (py_get (path p) (- 1)) (\<lambda>current_position.
     bind_result (py_get (layer_boundaries m) 0) (\<lambda>b_first.
     bind_result (py_get (layer_boundaries m) (- 1)) (\<lambda>b_last.
       if zcoord current_position < b_first \<or> zcoord current_position > b_last
       then Inr (prof, p\<lparr>alive := False\<rparr>, us)
       else
     bind_result (get_layer_index m (zcoord current_position)) (\<lambda>layer_index.
     bind_result (py_get (layer_properties m) layer_index) (\<lambda>layer_props.
     bind_result (next_draw us) (\<lambda>(u, us').
     bind_result (dict_get layer_props ''mu_s'') (\<lambda>mu_s.
     bind_result (np_log u) (\<lambda>log_u.
     bind_result (np_divide (- log_u) mu_s) (\<lambda>step_size.
     bind_result (move p step_size) (\<lambda>p1.
     let p2 = check_weight p1 default_threshold in
     bind_result (py_get prof layer_index) (\<lambda>deposited.
     bind_result (dict_get layer_props ''mu_a'') (\<lambda>mu_a.
     bind_result (py_set prof layer_index (deposited + weight p2 * mu_a * step_size)) (\<lambda>prof'.
     bind_result (dict_get layer_props ''mu_a'') (\<lambda>mu_a'.
       Inr (prof', p2\<lparr>weight := weight p2 * (1 - mu_a' * step_size)\<rparr>, us')
     ))))))))))))))"

text \<open>An iteration that returns has either consumed a draw or ended the photon.\<close>

lemma bind_result_Inr:
  "bind_result x f = Inr y \<longleftrightarrow> (\<exists>a. x = Inr a \<and> f a = Inr y)"
  by (cases x) auto

lemma run_loop_body_progress:
  "run_loop_body m prof p us = Inr (prof', p', us') \<Longrightarrow>
     length us' < length us \<or> (us' = us \<and> \<not> alive p')"
  by (auto simp: run_loop_body_def bind_result_Inr next_draw_def Let_def
        split: if_splits list.splits prod.splits)

text \<open>The \<^verbatim>\<open>while photon.alive\<close> loop of one trial.\<close>

function run_while ::
  "layered_mesh \<Rightarrow> real list \<Rightarrow> photon \<Rightarrow> real list \<Rightarrow> error + (real list \<times> photon \<times> real list)" where
  "run_while m prof p us =
     (if alive p
      then (case run_loop_body m prof p us of
              Inl e \<Rightarrow> Inl e
            | Inr (prof', p', us') \<Rightarrow> run_while m prof' p' us')
      else Inr (prof, p, us))"
  by pat_completeness auto
termination
  apply (relation "measure (\<lambda>(m, prof, p, us). 2 * length us + (if alive p then 1 else 0))")
   apply simp
  apply (auto dest!: run_loop_body_progress)
  done

declare run_while.simps [simp del]

text \<open>The states the loop passes through, one for each evaluation of the loop
  condition: the same recursion as \<open>run_while\<close>, recording the state instead of
  returning the last one. An iteration that raises ends the list.\<close>

function run_while_trace ::
  "layered_mesh \<Rightarrow> real list \<Rightarrow> photon \<Rightarrow> real list \<Rightarrow> (real list \<times> photon \<times> real list) list" where
  "run_while_trace m prof p us =
     (prof, p, us) #
     (if alive p
      then (case run_loop_body m prof p us of
              Inl e \<Rightarrow> []
            | Inr (prof', p', us') \<Rightarrow> run_while_trace m prof' p' us')
      else [])"
  by pat_completeness auto
termination
  apply (relation "measure (\<lambda>(m, prof, p, us). 2 * length us + (if alive p then 1 else 0))")
   apply simp
  apply (auto dest!: run_loop_body_progress)
  done

declare run_while_trace.simps [simp del]

text \<open>The \<^verbatim>\<open>for _ in range(self.num_photons)\<close> loop, on the number of trials left.\<close>

fun run_for :: "nat \<Rightarrow> simulator \<Rightarrow> real list \<Rightarrow> error + (simulator \<times> real list)" where
  "run_for 0 sim us = Inr (sim, us)"
| "run_for (Suc k) sim us =
     (let photon = Photon_init (initial_photon_direction sim) default_direction
      in case run_while (mesh sim) (absorption_profile sim) photon us of
           Inl e \<Rightarrow> Inl e
         | Inr (prof', p', us') \<Rightarrow>
             run_for k (sim\<lparr>absorption_profile := prof',
                            photon_paths := photon_paths sim @ [path p']\<rparr>) us')"

definition run :: "simulator \<Rightarrow> real list \<Rightarrow> error + (simulator \<times> real list)" where
  "run sim us = run_for (nat (num_photons sim)) sim us"

subsection \<open>Example inputs\<close>

text \<open>A property dictionary with the four required keys, and meshes built from it,
  used to evaluate the functions at concrete inputs.\<close>

definition tissue :: properties where
  "tissue = [''n'' \<mapsto> 1, ''mu_s'' \<mapsto> 1, ''mu_a'' \<mapsto> 1 / 100, ''g'' \<mapsto> 0]"

definition three_boundaries :: layered_mesh where
  "three_boundaries = \<lparr>layer_boundaries = [0, 1, 2], layer_properties = [tissue, tissue, tissue]\<rparr>"

definition one_layer :: layered_mesh where
  "one_layer = \<lparr>layer_boundaries = [0, 10], layer_properties = [tissue, tissue]\<rparr>"

definition unit_layer :: layered_mesh where
  "unit_layer = \<lparr>layer_boundaries = [0, 1], layer_properties = [tissue, tissue]\<rparr>"

text \<open>The hypotheses about the layers and the draws used below: every layer has
  \<open>mu_a \<ge> 0\<close> and \<open>mu_s > 0\<close>, and every draw lies in \<open>[0, 1)\<close>, the range of
  \<^verbatim>\<open>numpy.random.rand\<close>.\<close>

definition nonneg_layers :: "layered_mesh \<Rightarrow> bool" where
  "nonneg_layers m =
     list_all (\<lambda>props. case (props ''mu_a'', props ''mu_s'') of
                          (Some a, Some s) \<Rightarrow> 0 \<le> a \<and> 0 < s
                        | _ \<Rightarrow> True)
       (layer_properties m)"

definition unit_draws :: "real list \<Rightarrow> bool" where
  "unit_draws us = list_all (\<lambda>u. 0 \<le> u \<and> u < 1) us"

text \<open>The step that an iteration takes from the photon \<open>p\<close> with the pending draws \<open>us\<close>
  is finite and keeps \<open>mu_a * step \<le> 1\<close>: the draw is the next one, the layer is the one
  at the photon's depth. A draw \<open>u = 0\<close>, for which the code computes an infinite step,
  does not satisfy it. A state of the loop satisfies \<open>step_taken_bounded\<close> when the
  iteration it starts takes no step (the photon is not alive, or is outside the mesh)
  or takes such a step.\<close>

definition step_within_bound :: "layered_mesh \<Rightarrow> photon \<Rightarrow> real list \<Rightarrow> bool" where
  "step_within_bound m p us =
     (case us of
        [] \<Rightarrow> True
      | u # us' \<Rightarrow>
          (case get_layer_index m (zcoord (last (path p))) of
             Inl e \<Rightarrow> True
           | Inr layer_index \<Rightarrow>
               (case py_get (layer_properties m) layer_index of
                  Inl e \<Rightarrow> True
                | Inr layer_props \<Rightarrow>
                    (case (layer_props ''mu_s'', layer_props ''mu_a'') of
                       (Some mu_s, Some mu_a) \<Rightarrow>
                         0 < u \<and> mu_s \<noteq> 0 \<and> mu_a * (- ln u / mu_s) \<le> 1
                     | _ \<Rightarrow> True))))"

definition step_taken_bounded :: "layered_mesh \<Rightarrow> real list \<times> photon \<times> real list \<Rightarrow> bool" where
  "step_taken_bounded m s =
     (case s of (prof, p, us) \<Rightarrow>
        if alive p \<and> path p \<noteq> [] \<and> layer_boundaries m \<noteq> []
           \<and> hd (layer_boundaries m) \<le> zcoord (last (path p))
           \<and> zcoord (last (path p)) \<le> last (layer_boundaries m)
        then step_within_bound m p us
        else True)"

text \<open>A layer that absorbs more strongly than it scatters.\<close>

definition absorber :: properties where
  "absorber = [''n'' \<mapsto> 1, ''mu_s'' \<mapsto> 1, ''mu_a'' \<mapsto> 2, ''g'' \<mapsto> 0]"

definition absorbing_layer :: layered_mesh where
  "absorbing_layer = \<lparr>layer_boundaries = [0, 10], layer_properties = [absorber, absorber]\<rparr>"

text \<open>A position \<open>b\<close> that lies one free path along \<open>(0, 0, 1)\<close> behind \<open>a\<close>: the free
  path \<open>-ln(u) / mu_s\<close> of one of the draws \<open>us\<close> in one of the layers of the mesh.\<close>

definition z_step :: "layered_mesh \<Rightarrow> real list \<Rightarrow> vec3 \<Rightarrow> vec3 \<Rightarrow> bool" where
  "z_step m us a b =
     list_ex (\<lambda>u. list_ex (\<lambda>props. case props ''mu_s'' of
                                       None \<Rightarrow> False
                                     | Some mu_s \<Rightarrow> b = vec_add a (vec_scale (0, 0, 1) (- ln u / mu_s)))
                     (layer_properties m)) us"

section \<open>Properties\<close>

subsection \<open>LayeredMesh.add\_layer\<close>

text \<open>C7. \<^verbatim>\<open>add_layer\<close> raises a validation error whenever the new boundary is not
  greater than the current last boundary of a non-empty mesh, or one of the keys
  \<open>n\<close>, \<open>mu_s\<close>, \<open>mu_a\<close>, \<open>g\<close> is missing from the properties. A call that raises
  leaves the mesh as it was. A call that does not raise appends exactly the boundary to
  the boundary sequence and exactly the property record to the property list.\<close>

theorem add_layer_validation:
  "(layer_boundaries m \<noteq> [] \<and> boundary \<le> last (layer_boundaries m)
      \<longrightarrow> add_layer m boundary props = (Some ValueError, m))
   \<and> (props ''n'' = None \<or> props ''mu_s'' = None \<or> props ''mu_a'' = None \<or> props ''g'' = None
      \<longrightarrow> add_layer m boundary props = (Some ValueError, m))
   \<and> (\<forall>e m'. add_layer m boundary props = (Some e, m') \<longrightarrow> m' = m)
   \<and> ((layer_boundaries m = [] \<or> last (layer_boundaries m) < boundary)
       \<and> props ''n'' \<noteq> None \<and> props ''mu_s'' \<noteq> None \<and> props ''mu_a'' \<noteq> None \<and> props ''g'' \<noteq> None
      \<longrightarrow> add_layer m boundary props =
            (None, m\<lparr>layer_boundaries := layer_boundaries m @ [boundary],
                     layer_properties := layer_properties m @ [props]\<rparr>))"
  by (auto simp: add_layer_def required_keys_def)

theorem add_layer_validation_witness:
  "add_layer \<lparr>layer_boundaries = [0], layer_properties = [tissue]\<rparr> 0 tissue
     = (Some ValueError, \<lparr>layer_boundaries = [0], layer_properties = [tissue]\<rparr>)
   \<and> add_layer \<lparr>layer_boundaries = [0], layer_properties = [tissue]\<rparr> 10 (tissue(''mu_s'' := None))
     = (Some ValueError, \<lparr>layer_boundaries = [0], layer_properties = [tissue]\<rparr>)
   \<and> add_layer \<lparr>layer_boundaries = [0], layer_properties = [tissue]\<rparr> 10 tissue
     = (None, \<lparr>layer_boundaries = [0, 10], layer_properties = [tissue, tissue]\<rparr>)"
  using add_layer_validation [of "\<lparr>layer_boundaries = [0], layer_properties = [tissue]\<rparr>" 0 tissue]
    add_layer_validation [of "\<lparr>layer_boundaries = [0], layer_properties = [tissue]\<rparr>" 10 "tissue(''mu_s'' := None)"]
    add_layer_validation [of "\<lparr>layer_boundaries = [0], layer_properties = [tissue]\<rparr>" 10 tissue]
  by (simp add: tissue_def)

subsection \<open>LayeredMesh.get\_layer\_index\<close>

text \<open>The binary search, on a sorted array, returns the number of elements that do
  not exceed the key.\<close>

lemma binsearch_right_bounds:
  "lo \<le> hi \<Longrightarrow> hi \<le> length a \<Longrightarrow> sorted a \<Longrightarrow>
   (\<forall>j<lo. a ! j \<le> key) \<Longrightarrow> (\<forall>j. hi \<le> j \<and> j < length a \<longrightarrow> key < a ! j) \<Longrightarrow>
   lo \<le> binsearch_right a key lo hi \<and> binsearch_right a key lo hi \<le> hi
   \<and> (\<forall>j<binsearch_right a key lo hi. a ! j \<le> key)
   \<and> (\<forall>j. binsearch_right a key lo hi \<le> j \<and> j < length a \<longrightarrow> key < a ! j)"
proof (induction a key lo hi rule: binsearch_right.induct)
  case (1 a key lo hi)
  show ?case
  proof (cases "lo < hi")
    case False
    then have "binsearch_right a key lo hi = lo"
      by (simp add: binsearch_right.simps [of a key lo hi])
    with False "1.prems" show ?thesis by auto
  next
    case True
    define mid where "mid = lo + (hi - lo) div 2"
    have mid: "lo \<le> mid" "mid < hi" using True by (simp_all add: mid_def)
    show ?thesis
    proof (cases "a ! mid \<le> key")
      case le: True
      have left: "\<forall>j<mid + 1. a ! j \<le> key"
      proof (intro allI impI)
        fix j assume "j < mid + 1"
        then have "j \<le> mid" by simp
        with \<open>sorted a\<close> mid "1.prems"(2) have "a ! j \<le> a ! mid"
          by (intro sorted_nth_mono) auto
        with le show "a ! j \<le> key" by simp
      qed
      have eq: "binsearch_right a key lo hi = binsearch_right a key (mid + 1) hi"
        using True le by (simp add: binsearch_right.simps [of a key lo hi] mid_def Let_def)
      have "mid + 1 \<le> binsearch_right a key (mid + 1) hi \<and> binsearch_right a key (mid + 1) hi \<le> hi
        \<and> (\<forall>j<binsearch_right a key (mid + 1) hi. a ! j \<le> key)
        \<and> (\<forall>j. binsearch_right a key (mid + 1) hi \<le> j \<and> j < length a \<longrightarrow> key < a ! j)"
        using "1.IH"(1) [OF True mid_def le _ "1.prems"(2,3) left "1.prems"(5)] mid by simp
      with eq mid show ?thesis by auto
    next
      case gt: False
      have right: "\<forall>j. mid \<le> j \<and> j < length a \<longrightarrow> key < a ! j"
      proof (intro allI impI)
        fix j assume j: "mid \<le> j \<and> j < length a"
        with \<open>sorted a\<close> have "a ! mid \<le> a ! j"
          by (intro sorted_nth_mono) auto
        with gt show "key < a ! j" by simp
      qed
      have eq: "binsearch_right a key lo hi = binsearch_right a key lo mid"
        using True gt by (simp add: binsearch_right.simps [of a key lo hi] mid_def Let_def)
      have "lo \<le> binsearch_right a key lo mid \<and> binsearch_right a key lo mid \<le> mid
        \<and> (\<forall>j<binsearch_right a key lo mid. a ! j \<le> key)
        \<and> (\<forall>j. binsearch_right a key lo mid \<le> j \<and> j < length a \<longrightarrow> key < a ! j)"
        using "1.IH"(2) [OF True mid_def gt _ _ "1.prems"(3,4) right] mid "1.prems"(2) by simp
      with eq mid show ?thesis by auto
    qed
  qed
qed

lemma searchsorted_right_sorted:
  assumes "sorted a"
  shows "searchsorted_right a key \<le> length a"
    and "\<forall>j<searchsorted_right a key. a ! j \<le> key"
    and "\<forall>j. searchsorted_right a key \<le> j \<and> j < length a \<longrightarrow> key < a ! j"
  using binsearch_right_bounds [of 0 "length a" a key] assms
  by (simp_all add: searchsorted_right_def)

lemma get_layer_index_inside:
  assumes srt: "sorted (layer_boundaries m)" and ne: "layer_boundaries m \<noteq> []"
    and lo: "hd (layer_boundaries m) \<le> z" and hi: "z \<le> last (layer_boundaries m)"
  shows "\<exists>i<length (layer_boundaries m).
           get_layer_index m z = Inr (int i) \<and> layer_boundaries m ! i \<le> z
           \<and> (\<forall>j<length (layer_boundaries m). layer_boundaries m ! j \<le> z \<longrightarrow> j \<le> i)"
proof -
  let ?bs = "layer_boundaries m"
  let ?r = "searchsorted_right ?bs z"
  have r_le: "?r \<le> length ?bs"
    using searchsorted_right_sorted(1) [of ?bs z] srt by simp
  have below: "\<forall>j<?r. ?bs ! j \<le> z"
    using searchsorted_right_sorted(2) [of ?bs z] srt by simp
  have above: "\<forall>j. ?r \<le> j \<and> j < length ?bs \<longrightarrow> z < ?bs ! j"
    using searchsorted_right_sorted(3) [of ?bs z] srt by simp
  have len: "0 < length ?bs" using ne by simp
  have first: "?bs ! 0 \<le> z" using lo ne by (simp add: hd_conv_nth)
  have r_pos: "0 < ?r"
  proof (rule ccontr)
    assume "\<not> 0 < ?r"
    then have "?r \<le> 0 \<and> 0 < length ?bs" using len by simp
    with above have "z < ?bs ! 0" by blast
    with first show False by simp
  qed
  obtain b0 rest where cons: "?bs = b0 # rest"
    using ne by (cases ?bs) auto
  have inside: "\<not> (z < b0 \<or> z > last (b0 # rest))"
    using lo hi by (simp add: cons)
  have idx: "get_layer_index m z = Inr (int ?r - 1)"
    using inside by (simp add: get_layer_index_def cons)
  have "int (?r - 1) = int ?r - 1" using r_pos by simp
  with idx have res: "get_layer_index m z = Inr (int (?r - 1))" by (simp only:)
  have bound: "?r - 1 < length ?bs" using r_pos r_le by simp
  have here: "?bs ! (?r - 1) \<le> z" using below r_pos by simp
  have greatest: "\<forall>j<length ?bs. ?bs ! j \<le> z \<longrightarrow> j \<le> ?r - 1"
  proof (intro allI impI)
    fix j assume j: "j < length ?bs" and le: "?bs ! j \<le> z"
    have "j < ?r"
    proof (rule ccontr)
      assume "\<not> j < ?r"
      then have "?r \<le> j \<and> j < length ?bs" using j by simp
      with above have "z < ?bs ! j" by blast
      with le show False by simp
    qed
    then show "j \<le> ?r - 1" by simp
  qed
  show ?thesis
    apply (rule exI [of _ "?r - 1"])
    apply (intro conjI)
       apply (rule bound)
      apply (rule res)
     apply (rule here)
    apply (rule greatest)
    done
qed

text \<open>C4. On a mesh with strictly increasing boundaries \<open>b[0] < ... < b[n-1]\<close>:
  for \<open>b[0] \<le> z \<le> b[n-1]\<close>, \<^verbatim>\<open>get_layer_index(z)\<close> returns the greatest index \<open>i\<close> with
  \<open>b[i] \<le> z\<close>; a \<open>z\<close> equal to a boundary \<open>b[k]\<close> gets the index \<open>k\<close> (the layer that
  begins there, and \<open>n-1\<close> for the last boundary); for \<open>z < b[0]\<close> or \<open>z > b[n-1]\<close> the
  result is the sentinel \<open>-1\<close>.\<close>

theorem get_layer_index_greatest:
  assumes strict: "sorted_wrt (<) (layer_boundaries m)" and ne: "layer_boundaries m \<noteq> []"
  shows "(hd (layer_boundaries m) \<le> z \<and> z \<le> last (layer_boundaries m) \<longrightarrow>
           (\<exists>i<length (layer_boundaries m).
              get_layer_index m z = Inr (int i) \<and> layer_boundaries m ! i \<le> z
              \<and> (\<forall>j<length (layer_boundaries m). layer_boundaries m ! j \<le> z \<longrightarrow> j \<le> i)))
       \<and> (\<forall>k<length (layer_boundaries m).
             z = layer_boundaries m ! k \<longrightarrow> get_layer_index m z = Inr (int k))
       \<and> (z < hd (layer_boundaries m) \<or> last (layer_boundaries m) < z \<longrightarrow>
             get_layer_index m z = Inr (- 1))"
proof -
  let ?bs = "layer_boundaries m"
  have srt: "sorted ?bs"
    using strict by (rule strict_sorted_imp_sorted)
  have part1: "hd ?bs \<le> z \<and> z \<le> last ?bs \<longrightarrow>
           (\<exists>i<length ?bs. get_layer_index m z = Inr (int i) \<and> ?bs ! i \<le> z
              \<and> (\<forall>j<length ?bs. ?bs ! j \<le> z \<longrightarrow> j \<le> i))"
  proof
    assume "hd ?bs \<le> z \<and> z \<le> last ?bs"
    then have "hd ?bs \<le> z" and "z \<le> last ?bs" by simp_all
    then show "\<exists>i<length ?bs. get_layer_index m z = Inr (int i) \<and> ?bs ! i \<le> z
              \<and> (\<forall>j<length ?bs. ?bs ! j \<le> z \<longrightarrow> j \<le> i)"
      by (rule get_layer_index_inside [OF srt ne])
  qed
  have part2: "\<forall>k<length ?bs. z = ?bs ! k \<longrightarrow> get_layer_index m z = Inr (int k)"
  proof (intro allI impI)
    fix k assume k: "k < length ?bs" and z: "z = ?bs ! k"
    have "?bs ! 0 \<le> ?bs ! k"
      using srt k by (simp add: sorted_nth_mono)
    then have lo: "hd ?bs \<le> z" using ne z by (simp add: hd_conv_nth)
    have "?bs ! k \<le> ?bs ! (length ?bs - 1)"
      using srt k by (simp add: sorted_nth_mono)
    then have hi: "z \<le> last ?bs" using ne z by (simp add: last_conv_nth)
    from get_layer_index_inside [OF srt ne lo hi] obtain i where
      i1: "i < length ?bs" and i2: "get_layer_index m z = Inr (int i)"
      and i3: "?bs ! i \<le> z"
      and i4: "\<forall>j<length ?bs. ?bs ! j \<le> z \<longrightarrow> j \<le> i"
      by auto
    have "?bs ! k \<le> z" using z by simp
    with i4 k have "k \<le> i" by simp
    moreover have "\<not> k < i"
    proof
      assume "k < i"
      with strict i1 have "?bs ! k < ?bs ! i"
        by (simp add: sorted_wrt_nth_less)
      with i3 z show False by simp
    qed
    ultimately have "i = k" by simp
    with i2 show "get_layer_index m z = Inr (int k)" by simp
  qed
  have part3: "z < hd ?bs \<or> last ?bs < z \<longrightarrow> get_layer_index m z = Inr (- 1)"
  proof
    assume out: "z < hd ?bs \<or> last ?bs < z"
    obtain b0 rest where cons: "?bs = b0 # rest"
      using ne by (cases ?bs) auto
    from out have "z < b0 \<or> z > last (b0 # rest)" by (simp add: cons)
    then show "get_layer_index m z = Inr (- 1)"
      by (simp add: get_layer_index_def cons)
  qed
  from part1 part2 part3 show ?thesis by (intro conjI)
qed

theorem get_layer_index_greatest_witness:
  "get_layer_index three_boundaries 1 = Inr 1
   \<and> get_layer_index three_boundaries 2 = Inr 2
   \<and> get_layer_index three_boundaries 3 = Inr (- 1)
   \<and> get_layer_index three_boundaries (- 1) = Inr (- 1)"
proof -
  have s: "sorted_wrt (<) (layer_boundaries three_boundaries)"
    by (simp add: three_boundaries_def)
  have n: "layer_boundaries three_boundaries \<noteq> []"
    by (simp add: three_boundaries_def)
  have "get_layer_index three_boundaries 1 = Inr (int 1)"
    by (rule get_layer_index_greatest [OF s n, of 1, THEN conjunct2, THEN conjunct1, rule_format])
       (simp_all add: three_boundaries_def)
  moreover have "get_layer_index three_boundaries 2 = Inr (int 2)"
    by (rule get_layer_index_greatest [OF s n, of 2, THEN conjunct2, THEN conjunct1, rule_format])
       (simp_all add: three_boundaries_def)
  moreover have "get_layer_index three_boundaries 3 = Inr (- 1)"
    by (rule get_layer_index_greatest [OF s n, of 3, THEN conjunct2, THEN conjunct2, rule_format])
       (simp add: three_boundaries_def)
  moreover have "get_layer_index three_boundaries (- 1) = Inr (- 1)"
    by (rule get_layer_index_greatest [OF s n, of "- 1", THEN conjunct2, THEN conjunct2, rule_format])
       (simp add: three_boundaries_def)
  ultimately show ?thesis by simp
qed

subsection \<open>sample\_henyey\_greenstein\<close>

text \<open>C5 states that for every anisotropy \<open>g\<close> and every draw \<open>u\<close> in \<open>[0, 1)\<close>
  the sampler consumes one draw and returns \<open>arccos(cos\<theta>)\<close>, an angle in \<open>[0, \<pi>]\<close>.
  At \<open>g = 1\<close> (forward scattering) and the draw \<open>u = 0\<close> the divisor \<open>1 - g + 2 g u\<close> of
  the second branch is exactly zero, and the code raises ZeroDivisionError instead of
  returning an angle. The arithmetic at this input is exact in doubles as well.\<close>

theorem sample_henyey_greenstein_zero_divisor:
  "\<not> \<bar>1 :: real\<bar> < 1 / 10 ^ 10
   \<and> 1 - 1 + 2 * 1 * 0 = (0 :: real)
   \<and> sample_henyey_greenstein 1 [0] = Inl ZeroDivisionError"
  by (simp add: sample_henyey_greenstein_def)

subsection \<open>The loop body of run\<close>

text \<open>What one iteration does: outside the mesh it ends the photon and touches nothing
  else; inside, an iteration that returns has drawn once, moved the photon, deposited
  into the profile with the weight it found, and rescaled the weight afterwards.\<close>

lemma py_get_last:
  "xs \<noteq> [] \<Longrightarrow> py_get xs (- 1) = Inr (last xs)"
  by (cases xs rule: rev_cases) (simp_all add: py_get_def Let_def nat_add_distrib)

lemma py_get_first:
  "xs \<noteq> [] \<Longrightarrow> py_get xs 0 = Inr (hd xs)"
  by (cases xs) (simp_all add: py_get_def Let_def)

lemma py_get_Inr_mem:
  "py_get xs i = Inr x \<Longrightarrow> x \<in> set xs"
  by (auto simp: py_get_def Let_def split: if_splits)

lemma check_weight_fields [simp]:
  "weight (check_weight p t) = weight p"
  "path (check_weight p t) = path p"
  "direction (check_weight p t) = direction p"
  "position (check_weight p t) = position p"
  "alive (check_weight p t) = (alive p \<and> \<not> weight p < t)"
  by (simp_all add: check_weight_def)

lemma move_nonempty:
  "path p \<noteq> [] \<Longrightarrow>
   move p s = Inr (p\<lparr>path := path p @ [vec_add (last (path p)) (vec_scale (direction p) s)]\<rparr>)"
  by (simp add: move_def py_get_last)

lemma run_loop_body_outside:
  assumes "path p \<noteq> []" and "layer_boundaries m \<noteq> []"
    and "zcoord (last (path p)) < hd (layer_boundaries m)
         \<or> last (layer_boundaries m) < zcoord (last (path p))"
  shows "run_loop_body m prof p us = Inr (prof, p\<lparr>alive := False\<rparr>, us)"
  using assms by (simp add: run_loop_body_def py_get_last py_get_first)

lemma run_loop_body_inside:
  assumes ret: "run_loop_body m prof p us = Inr (prof', p', us')"
    and inside: "hd (layer_boundaries m) \<le> zcoord (last (path p))"
                "zcoord (last (path p)) \<le> last (layer_boundaries m)"
  shows "\<exists>u layer_index layer_props mu_s mu_a deposited.
           us = u # us' \<and> 0 < u \<and> mu_s \<noteq> 0
           \<and> get_layer_index m (zcoord (last (path p))) = Inr layer_index
           \<and> py_get (layer_properties m) layer_index = Inr layer_props
           \<and> layer_props ''mu_s'' = Some mu_s \<and> layer_props ''mu_a'' = Some mu_a
           \<and> py_get prof layer_index = Inr deposited
           \<and> py_set prof layer_index (deposited + weight p * mu_a * (- ln u / mu_s)) = Inr prof'
           \<and> path p' = path p @ [vec_add (last (path p)) (vec_scale (direction p) (- ln u / mu_s))]
           \<and> weight p' = weight p * (1 - mu_a * (- ln u / mu_s))
           \<and> alive p' = (alive p \<and> \<not> weight p < 1 / 1000)
           \<and> direction p' = direction p \<and> position p' = position p"
proof -
  have ne: "path p \<noteq> []" "layer_boundaries m \<noteq> []"
    using ret by (auto simp: run_loop_body_def py_get_def Let_def bind_result_Inr split: if_splits)
  show ?thesis
    using ret inside ne
    by (auto simp: run_loop_body_def py_get_last py_get_first bind_result_Inr next_draw_def
        dict_get_def np_log_def np_divide_def move_nonempty default_threshold_def
        Let_def split: if_splits list.splits option.splits)
qed

lemma run_while_dead:
  "\<not> alive p \<Longrightarrow> run_while m prof p us = Inr (prof, p, us)"
  by (simp add: run_while.simps [of m prof p us])

lemma run_while_step:
  "alive p \<Longrightarrow> run_loop_body m prof p us = Inr (prof', p', us') \<Longrightarrow>
   run_while m prof p us = run_while m prof' p' us'"
  by (simp add: run_while.simps [of m prof p us])

lemma run_while_raise:
  "alive p \<Longrightarrow> run_loop_body m prof p us = Inl e \<Longrightarrow> run_while m prof p us = Inl e"
  by (simp add: run_while.simps [of m prof p us])

lemma run_while_trace_dead:
  "\<not> alive p \<Longrightarrow> run_while_trace m prof p us = [(prof, p, us)]"
  by (simp add: run_while_trace.simps [of m prof p us])

lemma run_while_trace_step:
  "alive p \<Longrightarrow> run_loop_body m prof p us = Inr (prof', p', us') \<Longrightarrow>
   run_while_trace m prof p us = (prof, p, us) # run_while_trace m prof' p' us'"
  by (simp add: run_while_trace.simps [of m prof p us])

lemma run_while_trace_raise:
  "alive p \<Longrightarrow> run_loop_body m prof p us = Inl e \<Longrightarrow>
   run_while_trace m prof p us = [(prof, p, us)]"
  by (simp add: run_while_trace.simps [of m prof p us])

text \<open>C8. Whenever the depth of the photon's last path position is below \<open>b[0]\<close> or
  above \<open>b[n-1]\<close>, the iteration ends the trial at once: no draw is consumed, the path
  and the absorption profile are unchanged, only \<open>alive\<close> becomes false, and the loop
  returns after this one iteration. In particular a photon that starts at \<open>z = -1\<close> in
  a mesh with \<open>b[0] = 0\<close> ends with its one-element path.\<close>

theorem run_outside_terminates:
  assumes ne: "layer_boundaries m \<noteq> []"
  shows "(path p \<noteq> [] \<and> alive p
          \<and> (zcoord (last (path p)) < hd (layer_boundaries m)
              \<or> last (layer_boundaries m) < zcoord (last (path p)))
          \<longrightarrow> run_loop_body m prof p us = Inr (prof, p\<lparr>alive := False\<rparr>, us)
              \<and> run_while m prof p us = Inr (prof, p\<lparr>alive := False\<rparr>, us)
              \<and> run_while_trace m prof p us = [(prof, p, us), (prof, p\<lparr>alive := False\<rparr>, us)])
       \<and> (hd (layer_boundaries m) = 0 \<and> zcoord pos = - 1
          \<longrightarrow> run_while m prof (Photon_init pos dir) us
                = Inr (prof, (Photon_init pos dir)\<lparr>alive := False\<rparr>, us)
              \<and> path ((Photon_init pos dir)\<lparr>alive := False\<rparr>) = [pos])"
proof -
  have general: "run_loop_body m prof q us = Inr (prof, q\<lparr>alive := False\<rparr>, us)
              \<and> run_while m prof q us = Inr (prof, q\<lparr>alive := False\<rparr>, us)
              \<and> run_while_trace m prof q us = [(prof, q, us), (prof, q\<lparr>alive := False\<rparr>, us)]"
    if q: "path q \<noteq> []" "alive q"
      "zcoord (last (path q)) < hd (layer_boundaries m)
       \<or> last (layer_boundaries m) < zcoord (last (path q))" for q
  proof -
    have body: "run_loop_body m prof q us = Inr (prof, q\<lparr>alive := False\<rparr>, us)"
      using q(1) ne q(3) by (rule run_loop_body_outside)
    have "run_while m prof q us = run_while m prof (q\<lparr>alive := False\<rparr>) us"
      using q(2) body by (rule run_while_step)
    then have loop: "run_while m prof q us = Inr (prof, q\<lparr>alive := False\<rparr>, us)"
      by (simp add: run_while_dead)
    have "run_while_trace m prof q us
          = (prof, q, us) # run_while_trace m prof (q\<lparr>alive := False\<rparr>) us"
      using q(2) body by (rule run_while_trace_step)
    then have "run_while_trace m prof q us = [(prof, q, us), (prof, q\<lparr>alive := False\<rparr>, us)]"
      by (simp add: run_while_trace_dead)
    with body loop show ?thesis by simp
  qed
  have first: "path p \<noteq> [] \<and> alive p
          \<and> (zcoord (last (path p)) < hd (layer_boundaries m)
              \<or> last (layer_boundaries m) < zcoord (last (path p)))
          \<longrightarrow> run_loop_body m prof p us = Inr (prof, p\<lparr>alive := False\<rparr>, us)
              \<and> run_while m prof p us = Inr (prof, p\<lparr>alive := False\<rparr>, us)
              \<and> run_while_trace m prof p us = [(prof, p, us), (prof, p\<lparr>alive := False\<rparr>, us)]"
    using general [of p] by simp
  have second: "hd (layer_boundaries m) = 0 \<and> zcoord pos = - 1
          \<longrightarrow> run_while m prof (Photon_init pos dir) us
                = Inr (prof, (Photon_init pos dir)\<lparr>alive := False\<rparr>, us)
              \<and> path ((Photon_init pos dir)\<lparr>alive := False\<rparr>) = [pos]"
    using general [of "Photon_init pos dir"] by (simp add: Photon_init_def)
  from first second show ?thesis by (rule conjI)
qed

theorem run_outside_terminates_witness:
  "run_loop_body one_layer [0] (Photon_init (0, 0, 11) default_direction) [1 / 2]
     = Inr ([0], (Photon_init (0, 0, 11) default_direction)\<lparr>alive := False\<rparr>, [1 / 2])
   \<and> run_while one_layer [0] (Photon_init (0, 0, - 1) default_direction) [1 / 2]
     = Inr ([0], (Photon_init (0, 0, - 1) default_direction)\<lparr>alive := False\<rparr>, [1 / 2])
   \<and> run (MonteCarloSimulator_init one_layer 1 (0, 0, - 1)) [1 / 2]
     = Inr ((MonteCarloSimulator_init one_layer 1 (0, 0, - 1))\<lparr>photon_paths := [[(0, 0, - 1)]]\<rparr>,
            [1 / 2])"
proof -
  have ne: "layer_boundaries one_layer \<noteq> []" by (simp add: one_layer_def)
  have above: "run_loop_body one_layer [0] (Photon_init (0, 0, 11) default_direction) [1 / 2]
     = Inr ([0], (Photon_init (0, 0, 11) default_direction)\<lparr>alive := False\<rparr>, [1 / 2])"
    using run_outside_terminates [OF ne, where p = "Photon_init (0, 0, 11) default_direction"
        and prof = "[0]" and us = "[1 / 2]"]
    by (simp add: one_layer_def zcoord_def Photon_init_def)
  have loop: "run_while one_layer [0] (Photon_init (0, 0, - 1) default_direction) [1 / 2]
     = Inr ([0], (Photon_init (0, 0, - 1) default_direction)\<lparr>alive := False\<rparr>, [1 / 2])"
    using run_outside_terminates [OF ne, where pos = "(0, 0, - 1)" and prof = "[0]"
        and dir = default_direction and us = "[1 / 2]"]
    by (simp add: one_layer_def zcoord_def)
  have "run (MonteCarloSimulator_init one_layer 1 (0, 0, - 1)) [1 / 2]
     = Inr ((MonteCarloSimulator_init one_layer 1 (0, 0, - 1))\<lparr>photon_paths := [[(0, 0, - 1)]]\<rparr>,
            [1 / 2])"
    using loop by (simp add: run_def MonteCarloSimulator_init_def one_layer_def Photon_init_def)
  with above loop show ?thesis by simp
qed

subsection \<open>The alive flag\<close>

lemma run_loop_body_alive:
  assumes "run_loop_body m prof p us = Inr (prof', p', us')"
  shows "alive p' \<longrightarrow> alive p"
proof (cases "hd (layer_boundaries m) \<le> zcoord (last (path p))
              \<and> zcoord (last (path p)) \<le> last (layer_boundaries m)")
  case True
  with run_loop_body_inside [OF assms] show ?thesis by auto
next
  case False
  have ne: "path p \<noteq> []" "layer_boundaries m \<noteq> []"
    using assms by (auto simp: run_loop_body_def py_get_def Let_def bind_result_Inr split: if_splits)
  from False have "zcoord (last (path p)) < hd (layer_boundaries m)
         \<or> last (layer_boundaries m) < zcoord (last (path p))" by auto
  from run_loop_body_outside [OF ne this, of prof us] assms show ?thesis by simp
qed

lemma run_while_ends_dead:
  "run_while m prof p us = Inr (prof', p', us') \<Longrightarrow> \<not> alive p'"
proof (induction m prof p us rule: run_while.induct)
  case (1 m prof p us)
  show ?case
  proof (cases "alive p")
    case False
    with "1.prems" show ?thesis by (simp add: run_while_dead)
  next
    case True
    show ?thesis
    proof (cases "run_loop_body m prof p us")
      case (Inl e)
      with True "1.prems" show ?thesis by (simp add: run_while_raise)
    next
      case (Inr r)
      obtain prof1 p1 us1 where r: "r = (prof1, p1, us1)" by (cases r) auto
      with Inr True "1.prems" have "run_while m prof1 p1 us1 = Inr (prof', p', us')"
        by (simp add: run_while_step)
      with "1.IH" [OF True Inr [unfolded r] refl refl] show ?thesis by simp
    qed
  qed
qed

text \<open>C9. \<open>alive\<close> starts true. \<^verbatim>\<open>check_weight(threshold)\<close> leaves a photon alive iff it
  was alive and its weight is not below the threshold (\<open>0.001\<close> by default), so it sets
  \<open>alive\<close> to false iff \<open>weight < threshold\<close>. \<^verbatim>\<open>move\<close>, \<^verbatim>\<open>scatter\<close> and \<^verbatim>\<open>absorb\<close> do
  not change \<open>alive\<close>. No iteration of the driver loop turns a photon that is not alive
  into one that is, and the photon a trial returns is not alive.\<close>

theorem alive_one_way:
  "alive (Photon_init pos dir)
   \<and> (alive (check_weight p t) \<longleftrightarrow> alive p \<and> \<not> weight p < t)
   \<and> (alive (check_weight p default_threshold) \<longleftrightarrow> alive p \<and> \<not> weight p < 1 / 1000)
   \<and> (\<forall>p'. move p s = Inr p' \<longrightarrow> alive p' = alive p)
   \<and> (\<forall>p' us'. scatter p g us = Inr (p', us') \<longrightarrow> alive p' = alive p)
   \<and> alive (absorb p mu_a s) = alive p
   \<and> (\<forall>prof' p' us'. run_loop_body m prof p us = Inr (prof', p', us') \<longrightarrow> alive p' \<longrightarrow> alive p)
   \<and> (\<forall>prof' p' us'. run_while m prof p us = Inr (prof', p', us') \<longrightarrow> \<not> alive p')"
proof -
  have a: "alive (Photon_init pos dir)" by (simp add: Photon_init_def)
  have b: "alive (check_weight p t) \<longleftrightarrow> alive p \<and> \<not> weight p < t" by simp
  have c: "alive (check_weight p default_threshold) \<longleftrightarrow> alive p \<and> \<not> weight p < 1 / 1000"
    by (simp add: default_threshold_def)
  have d: "\<forall>p'. move p s = Inr p' \<longrightarrow> alive p' = alive p"
    by (auto simp: move_def split: sum.splits)
  have e: "\<forall>p' us'. scatter p g us = Inr (p', us') \<longrightarrow> alive p' = alive p"
    by (auto simp: scatter_def Let_def split: sum.splits list.splits prod.splits)
  have f: "alive (absorb p mu_a s) = alive p" by (simp add: absorb_def Let_def)
  have g: "\<forall>prof' p' us'. run_loop_body m prof p us = Inr (prof', p', us') \<longrightarrow> alive p' \<longrightarrow> alive p"
    using run_loop_body_alive by blast
  have h: "\<forall>prof' p' us'. run_while m prof p us = Inr (prof', p', us') \<longrightarrow> \<not> alive p'"
    using run_while_ends_dead by blast
  from a b c d e f g h show ?thesis by (intro conjI)
qed

theorem alive_one_way_witness:
  "alive (Photon_init (0, 0, 0) default_direction)
   \<and> \<not> alive (check_weight ((Photon_init (0, 0, 0) default_direction)\<lparr>weight := 1 / 2000\<rparr>)
                default_threshold)
   \<and> alive (check_weight (Photon_init (0, 0, 0) default_direction) default_threshold)
   \<and> \<not> alive (check_weight ((Photon_init (0, 0, 0) default_direction)\<lparr>alive := False\<rparr>)
                default_threshold)"
  using alive_one_way [where pos = "(0, 0, 0)" and dir = default_direction
      and p = "(Photon_init (0, 0, 0) default_direction)\<lparr>weight := 1 / 2000\<rparr>"]
    alive_one_way [where p = "Photon_init (0, 0, 0) default_direction"]
    alive_one_way [where p = "(Photon_init (0, 0, 0) default_direction)\<lparr>alive := False\<rparr>"]
  by (simp add: Photon_init_def)

subsection \<open>Evaluating run on the example meshes\<close>

lemma tissue_lookup:
  "tissue ''n'' = Some 1" "tissue ''mu_s'' = Some 1"
  "tissue ''mu_a'' = Some (1 / 100)" "tissue ''g'' = Some 0"
  by (simp_all add: tissue_def)

lemma tissue_keys: "list_all (\<lambda>key. tissue key \<noteq> None) required_keys"
  by (simp add: required_keys_def tissue_lookup del: not_None_eq)

lemma unit_layer_index: "get_layer_index unit_layer 1 = Inr 1"
  by (simp add: get_layer_index_def unit_layer_def searchsorted_right_def binsearch_right.simps)

lemma one_layer_index: "get_layer_index one_layer 0 = Inr 0"
  by (simp add: get_layer_index_def one_layer_def searchsorted_right_def binsearch_right.simps)

lemma one_layer_first_iteration:
  "run_loop_body one_layer [0] (Photon_init (1, 0, 0) default_direction) [exp (- 11)]
   = Inr ([11 / 100],
          \<lparr>position = (1, 0, 0), direction = (0, 0, 1), path = [(1, 0, 0), (1, 0, 11)],
           weight = 89 / 100, alive = True\<rparr>,
          [])"
  by (simp add: run_loop_body_def one_layer_index Photon_init_def zcoord_def py_get_def py_set_def
      next_draw_def dict_get_def tissue_def np_log_def np_divide_def move_def Let_def
      check_weight_def default_threshold_def default_direction_def vec_add_def vec_scale_def
      one_layer_def [THEN arg_cong, of layer_boundaries]
      one_layer_def [THEN arg_cong, of layer_properties])

lemma one_layer_trial:
  "run_while one_layer [0] (Photon_init (1, 0, 0) default_direction) [exp (- 11)]
   = Inr ([11 / 100],
          \<lparr>position = (1, 0, 0), direction = (0, 0, 1), path = [(1, 0, 0), (1, 0, 11)],
           weight = 89 / 100, alive = False\<rparr>,
          [])"
proof -
  let ?p1 = "\<lparr>position = (1, 0, 0), direction = (0, 0, 1), path = [(1, 0, 0), (1, 0, 11)],
           weight = 89 / 100, alive = True\<rparr> :: photon"
  have second: "run_loop_body one_layer [11 / 100] ?p1 [] = Inr ([11 / 100], ?p1\<lparr>alive := False\<rparr>, [])"
    by (rule run_loop_body_outside) (simp_all add: one_layer_def zcoord_def)
  have "run_while one_layer [0] (Photon_init (1, 0, 0) default_direction) [exp (- 11)]
        = run_while one_layer [11 / 100] ?p1 []"
    by (rule run_while_step [OF _ one_layer_first_iteration]) (simp add: Photon_init_def)
  also have "\<dots> = run_while one_layer [11 / 100] (?p1\<lparr>alive := False\<rparr>) []"
    by (rule run_while_step [OF _ second]) simp
  also have "\<dots> = Inr ([11 / 100], ?p1\<lparr>alive := False\<rparr>, [])"
    by (rule run_while_dead) simp
  finally show ?thesis by simp
qed

lemma one_layer_run:
  "run (MonteCarloSimulator_init one_layer 1 (1, 0, 0)) [exp (- 11)]
   = Inr (\<lparr>mesh = one_layer, num_photons = 1, initial_photon_direction = (1, 0, 0),
           photon_paths = [[(1, 0, 0), (1, 0, 11)]], absorption_profile = [11 / 100]\<rparr>, [])"
  using one_layer_trial
  by (simp add: run_def MonteCarloSimulator_init_def one_layer_def [THEN arg_cong, of layer_boundaries])

text \<open>C3 states that every iteration on a photon whose depth lies inside the mesh
  samples the step, moves the photon, deposits \<open>weight * mu_a * step\<close> into
  \<open>absorption_profile[layer]\<close> and then rescales the weight. At a depth equal to the last
  boundary the code does not get that far. On the mesh with boundaries \<open>[0, 1]\<close>, built
  by two calls of \<^verbatim>\<open>add_layer\<close>, the profile has one entry; a photon at \<open>z = 1\<close> (where a
  simulator with the default initial direction puts it) is inside the mesh and in layer
  \<open>1\<close>, whose properties exist; the step is sampled and the photon moved, and the
  deposit into entry \<open>1\<close> of the one-entry profile raises IndexError.\<close>

theorem deposit_at_last_boundary_raises:
  "add_layer (snd (add_layer LayeredMesh_init 0 tissue)) 1 tissue = (None, unit_layer)
   \<and> absorption_profile (MonteCarloSimulator_init unit_layer 1 default_initial_photon_direction) = [0]
   \<and> get_layer_index unit_layer 1 = Inr 1
   \<and> py_get (layer_properties unit_layer) 1 = Inr tissue
   \<and> py_get [0 :: real] 1 = Inl IndexError
   \<and> run_loop_body unit_layer [0] (Photon_init (0, 0, 1) default_direction) [exp (- 1)]
       = Inl IndexError
   \<and> run (MonteCarloSimulator_init unit_layer 1 default_initial_photon_direction) [exp (- 1)] = Inl IndexError"
proof -
  have prof: "absorption_profile (MonteCarloSimulator_init unit_layer 1 default_initial_photon_direction) = [0]"
    by (simp add: MonteCarloSimulator_init_def unit_layer_def)
  have body: "run_loop_body unit_layer [0] (Photon_init (0, 0, 1) default_direction) [exp (- 1)]
       = Inl IndexError"
    by (simp add: run_loop_body_def unit_layer_index Photon_init_def zcoord_def py_get_def
        next_draw_def dict_get_def tissue_def np_log_def np_divide_def move_def Let_def
        unit_layer_def [THEN arg_cong, of layer_boundaries]
        unit_layer_def [THEN arg_cong, of layer_properties])
  have "run_while unit_layer [0] (Photon_init (0, 0, 1) default_direction) [exp (- 1)]
       = Inl IndexError"
    using body by (intro run_while_raise) (simp_all add: Photon_init_def)
  then have "run (MonteCarloSimulator_init unit_layer 1 default_initial_photon_direction) [exp (- 1)] = Inl IndexError"
    using prof
    by (simp add: run_def MonteCarloSimulator_init_def default_initial_photon_direction_def)
  moreover have "add_layer (snd (add_layer LayeredMesh_init 0 tissue)) 1 tissue = (None, unit_layer)"
    by (simp add: add_layer_def LayeredMesh_init_def unit_layer_def tissue_keys del: not_None_eq)
  moreover have "py_get (layer_properties unit_layer) 1 = Inr tissue"
    by (simp add: py_get_def unit_layer_def)
  moreover have "py_get [0 :: real] 1 = Inl IndexError"
    by (simp add: py_get_def)
  ultimately show ?thesis using prof body unit_layer_index by simp
qed

text \<open>C1 states that the photon's direction during a trial is the initial direction
  given to the simulator. With the initial direction \<open>(1, 0, 0)\<close> on the mesh with
  boundaries \<open>[0, 10]\<close> and one draw \<open>exp(-11)\<close> (a step of length \<open>11\<close>), the photon of the
  code starts at the point \<open>(1, 0, 0)\<close> and moves along \<open>(0, 0, 1)\<close> to \<open>(1, 0, 11)\<close>.\<close>

theorem run_moves_along_z:
  "run (MonteCarloSimulator_init one_layer 1 (1, 0, 0)) [exp (- 11)]
   = Inr (\<lparr>mesh = one_layer, num_photons = 1, initial_photon_direction = (1, 0, 0),
           photon_paths = [[(1, 0, 0), (1, 0, 11)]], absorption_profile = [11 / 100]\<rparr>, [])"
  by (rule one_layer_run)

subsection \<open>Invariants of a trial\<close>

text \<open>An iteration that returns either found the photon outside the mesh or took a step;
  a property of the state that every iteration preserves holds at every state the
  loop passes through, and the state the loop returns is one of them.\<close>

lemma run_loop_body_nonempty:
  "run_loop_body m prof p us = Inr r \<Longrightarrow> path p \<noteq> [] \<and> layer_boundaries m \<noteq> []"
  by (auto simp: run_loop_body_def py_get_def Let_def bind_result_Inr split: if_splits)

lemma run_loop_body_cases:
  assumes ret: "run_loop_body m prof p us = Inr (prof', p', us')"
  obtains (outside) "prof' = prof" "us' = us" "p' = p\<lparr>alive := False\<rparr>"
  | (inside) u layer_props mu_s mu_a where
      "us = u # us'" "0 < u" "mu_s \<noteq> 0" "layer_props \<in> set (layer_properties m)"
      "layer_props ''mu_s'' = Some mu_s" "layer_props ''mu_a'' = Some mu_a"
      "path p' = path p @ [vec_add (last (path p)) (vec_scale (direction p) (- ln u / mu_s))]"
      "weight p' = weight p * (1 - mu_a * (- ln u / mu_s))"
      "alive p' = (alive p \<and> \<not> weight p < 1 / 1000)"
      "direction p' = direction p" "position p' = position p"
proof (cases "hd (layer_boundaries m) \<le> zcoord (last (path p))
              \<and> zcoord (last (path p)) \<le> last (layer_boundaries m)")
  case True
  from run_loop_body_inside [OF ret] True obtain u layer_index layer_props mu_s mu_a where
    *: "us = u # us'" "0 < u" "mu_s \<noteq> 0"
       "py_get (layer_properties m) layer_index = Inr layer_props"
       "layer_props ''mu_s'' = Some mu_s" "layer_props ''mu_a'' = Some mu_a"
       "path p' = path p @ [vec_add (last (path p)) (vec_scale (direction p) (- ln u / mu_s))]"
       "weight p' = weight p * (1 - mu_a * (- ln u / mu_s))"
       "alive p' = (alive p \<and> \<not> weight p < 1 / 1000)"
       "direction p' = direction p" "position p' = position p"
    by blast
  from *(4) have "layer_props \<in> set (layer_properties m)" by (rule py_get_Inr_mem)
  with * show ?thesis by (intro inside)
next
  case False
  have ne: "path p \<noteq> []" "layer_boundaries m \<noteq> []"
    using run_loop_body_nonempty [OF ret] by simp_all
  from False have "zcoord (last (path p)) < hd (layer_boundaries m)
         \<or> last (layer_boundaries m) < zcoord (last (path p))" by auto
  from run_loop_body_outside [OF ne this, of prof us] ret show ?thesis
    by (intro outside) simp_all
qed

lemma run_while_trace_invariant:
  assumes init: "P (prof, p, us)"
    and step: "\<And>prof p us prof' p' us'.
      P (prof, p, us) \<Longrightarrow> alive p \<Longrightarrow> run_loop_body m prof p us = Inr (prof', p', us')
      \<Longrightarrow> P (prof', p', us')"
  shows "\<forall>s \<in> set (run_while_trace m prof p us). P s"
  using init step
proof (induction m prof p us rule: run_while_trace.induct)
  case (1 m prof p us)
  note init = "1.prems"(1) and step = "1.prems"(2)
  show ?case
  proof (cases "alive p")
    case False
    with init show ?thesis by (simp add: run_while_trace_dead)
  next
    case True
    show ?thesis
    proof (cases "run_loop_body m prof p us")
      case (Inl e)
      with True init show ?thesis by (simp add: run_while_trace_raise)
    next
      case (Inr r)
      obtain prof1 p1 us1 where r: "r = (prof1, p1, us1)" by (cases r) auto
      have body: "run_loop_body m prof p us = Inr (prof1, p1, us1)" using Inr r by simp
      have next_state: "P (prof1, p1, us1)" using init True body by (rule step)
      have "\<forall>s \<in> set (run_while_trace m prof1 p1 us1). P s"
        using "1.IH" [OF True Inr [unfolded r] refl refl next_state] step by blast
      with init show ?thesis
        by (simp add: run_while_trace_step [OF True body])
    qed
  qed
qed

lemma run_while_in_trace:
  "run_while m prof p us = Inr s \<Longrightarrow> s \<in> set (run_while_trace m prof p us)"
proof (induction m prof p us rule: run_while.induct)
  case (1 m prof p us)
  show ?case
  proof (cases "alive p")
    case False
    with "1.prems" show ?thesis by (simp add: run_while_dead run_while_trace_dead)
  next
    case True
    show ?thesis
    proof (cases "run_loop_body m prof p us")
      case (Inl e)
      with True "1.prems" show ?thesis by (simp add: run_while_raise)
    next
      case (Inr r)
      obtain prof1 p1 us1 where r: "r = (prof1, p1, us1)" by (cases r) auto
      have body: "run_loop_body m prof p us = Inr (prof1, p1, us1)" using Inr r by simp
      have "run_while m prof1 p1 us1 = Inr s"
        using "1.prems" by (simp add: run_while_step [OF True body])
      with "1.IH" [OF True Inr [unfolded r] refl refl]
      have "s \<in> set (run_while_trace m prof1 p1 us1)" by simp
      then show ?thesis by (simp add: run_while_trace_step [OF True body])
    qed
  qed
qed

lemma run_while_trace_photon:
  assumes "direction p = d" and "position p = x" and "path p \<noteq> []" and "hd (path p) = x"
  shows "\<forall>s \<in> set (run_while_trace m prof p us).
           direction (fst (snd s)) = d \<and> position (fst (snd s)) = x
           \<and> path (fst (snd s)) \<noteq> [] \<and> hd (path (fst (snd s))) = x"
proof (rule run_while_trace_invariant)
  show "direction (fst (snd (prof, p, us))) = d \<and> position (fst (snd (prof, p, us))) = x
        \<and> path (fst (snd (prof, p, us))) \<noteq> [] \<and> hd (path (fst (snd (prof, p, us)))) = x"
    using assms by simp
next
  fix prof p us prof' p' us'
  assume inv: "direction (fst (snd (prof, p, us))) = d \<and> position (fst (snd (prof, p, us))) = x
        \<and> path (fst (snd (prof, p, us))) \<noteq> [] \<and> hd (path (fst (snd (prof, p, us)))) = x"
    and body: "run_loop_body m prof p us = Inr (prof', p', us')"
  from body have "direction p' = direction p \<and> position p' = position p
      \<and> path p' \<noteq> [] \<and> hd (path p') = hd (path p)"
  proof (cases rule: run_loop_body_cases)
    case outside
    with inv show ?thesis by simp
  next
    case (inside u layer_props mu_s mu_a)
    with inv show ?thesis by simp
  qed
  with inv show "direction (fst (snd (prof', p', us'))) = d \<and> position (fst (snd (prof', p', us'))) = x
        \<and> path (fst (snd (prof', p', us'))) \<noteq> [] \<and> hd (path (fst (snd (prof', p', us')))) = x"
    by simp
qed

lemma run_for_paths:
  "run_for k sim us = Inr (sim', us') \<Longrightarrow>
   mesh sim' = mesh sim \<and> num_photons sim' = num_photons sim
   \<and> initial_photon_direction sim' = initial_photon_direction sim
   \<and> (\<exists>new. photon_paths sim' = photon_paths sim @ new \<and> length new = k
        \<and> (\<forall>pth \<in> set new. pth \<noteq> [] \<and> hd pth = initial_photon_direction sim))"
proof (induction k arbitrary: sim us)
  case 0
  then show ?case by simp
next
  case (Suc k)
  let ?photon = "Photon_init (initial_photon_direction sim) default_direction"
  obtain prof1 p1 us1 where
    trial: "run_while (mesh sim) (absorption_profile sim) ?photon us = Inr (prof1, p1, us1)"
    and rest: "run_for k (sim\<lparr>absorption_profile := prof1,
                              photon_paths := photon_paths sim @ [path p1]\<rparr>) us1 = Inr (sim', us')"
    using Suc.prems by (auto simp: Let_def split: sum.splits)
  have "(prof1, p1, us1) \<in> set (run_while_trace (mesh sim) (absorption_profile sim) ?photon us)"
    using trial by (rule run_while_in_trace)
  moreover have "\<forall>s \<in> set (run_while_trace (mesh sim) (absorption_profile sim) ?photon us).
           direction (fst (snd s)) = default_direction
           \<and> position (fst (snd s)) = initial_photon_direction sim
           \<and> path (fst (snd s)) \<noteq> [] \<and> hd (path (fst (snd s))) = initial_photon_direction sim"
    by (rule run_while_trace_photon) (simp_all add: Photon_init_def)
  ultimately have p1: "path p1 \<noteq> []" "hd (path p1) = initial_photon_direction sim"
    by fastforce+
  from Suc.IH [OF rest] obtain new where
    same: "mesh sim' = mesh sim" "num_photons sim' = num_photons sim"
      "initial_photon_direction sim' = initial_photon_direction sim"
    and new: "photon_paths sim' = (photon_paths sim @ [path p1]) @ new" "length new = k"
      "\<forall>pth \<in> set new. pth \<noteq> [] \<and> hd pth = initial_photon_direction sim"
    by auto
  have "photon_paths sim' = photon_paths sim @ (path p1 # new)" using new(1) by simp
  moreover have "length (path p1 # new) = Suc k" using new(2) by simp
  moreover have "\<forall>pth \<in> set (path p1 # new). pth \<noteq> [] \<and> hd pth = initial_photon_direction sim"
    using new(3) p1 by simp
  ultimately show ?case using same by blast
qed

lemma run_for_add:
  "run_for (j + k) sim us =
     (case run_for j sim us of Inl e \<Rightarrow> Inl e | Inr (sim_j, us_j) \<Rightarrow> run_for k sim_j us_j)"
proof (induction j arbitrary: sim us)
  case 0
  show ?case by simp
next
  case (Suc j)
  show ?case by (simp add: Let_def Suc.IH split: sum.splits)
qed

text \<open>Every path a trial builds advances along \<open>(0, 0, 1)\<close> by the sampled free
  paths, and so does every path that the loop over the trials records.\<close>

lemma z_stepI:
  "u \<in> set us \<Longrightarrow> props \<in> set (layer_properties m) \<Longrightarrow> props ''mu_s'' = Some mu_s \<Longrightarrow>
   z_step m us a (vec_add a (vec_scale (0, 0, 1) (- ln u / mu_s)))"
  unfolding z_step_def list_ex_iff by force

lemma run_while_trace_along:
  assumes "direction p = (0, 0, 1)" and "path p \<noteq> []" and "hd (path p) = x"
    and "successively (z_step m U) (path p)" and "set us \<subseteq> set U"
  shows "\<forall>s \<in> set (run_while_trace m prof p us).
           direction (fst (snd s)) = (0, 0, 1) \<and> path (fst (snd s)) \<noteq> []
           \<and> hd (path (fst (snd s))) = x
           \<and> successively (z_step m U) (path (fst (snd s)))
           \<and> set (snd (snd s)) \<subseteq> set U"
proof (rule run_while_trace_invariant)
  show "direction (fst (snd (prof, p, us))) = (0, 0, 1) \<and> path (fst (snd (prof, p, us))) \<noteq> []
           \<and> hd (path (fst (snd (prof, p, us)))) = x
           \<and> successively (z_step m U) (path (fst (snd (prof, p, us))))
           \<and> set (snd (snd (prof, p, us))) \<subseteq> set U"
    using assms by simp
next
  fix prof1 p1 us1 prof2 p2 us2
  assume inv: "direction (fst (snd (prof1, p1, us1))) = (0, 0, 1) \<and> path (fst (snd (prof1, p1, us1))) \<noteq> []
           \<and> hd (path (fst (snd (prof1, p1, us1)))) = x
           \<and> successively (z_step m U) (path (fst (snd (prof1, p1, us1))))
           \<and> set (snd (snd (prof1, p1, us1))) \<subseteq> set U"
    and body: "run_loop_body m prof1 p1 us1 = Inr (prof2, p2, us2)"
  from inv have d: "direction p1 = (0, 0, 1)" and ne: "path p1 \<noteq> []" and h: "hd (path p1) = x"
    and s: "successively (z_step m U) (path p1)" and sub: "set us1 \<subseteq> set U" by simp_all
  from body have "direction p2 = (0, 0, 1) \<and> path p2 \<noteq> [] \<and> hd (path p2) = x
      \<and> successively (z_step m U) (path p2) \<and> set us2 \<subseteq> set U"
  proof (cases rule: run_loop_body_cases)
    case outside
    with d ne h s sub show ?thesis by simp
  next
    case (inside u layer_props mu_s mu_a)
    have "u \<in> set U" using inside(1) sub by auto
    then have "z_step m U (last (path p1))
        (vec_add (last (path p1)) (vec_scale (0, 0, 1) (- ln u / mu_s)))"
      using inside(4,5) by (rule z_stepI)
    then have "successively (z_step m U) (path p2)"
      using s ne inside(7) d by (simp add: successively_append_iff)
    moreover have "set us2 \<subseteq> set U" using inside(1) sub by auto
    ultimately show ?thesis using inside d ne h by simp
  qed
  then show "direction (fst (snd (prof2, p2, us2))) = (0, 0, 1) \<and> path (fst (snd (prof2, p2, us2))) \<noteq> []
           \<and> hd (path (fst (snd (prof2, p2, us2)))) = x
           \<and> successively (z_step m U) (path (fst (snd (prof2, p2, us2))))
           \<and> set (snd (snd (prof2, p2, us2))) \<subseteq> set U"
    by simp
qed

lemma run_for_along:
  "run_for k sim us = Inr (sim', us') \<Longrightarrow> set us \<subseteq> set U \<Longrightarrow>
   \<exists>new. photon_paths sim' = photon_paths sim @ new
     \<and> (\<forall>pth \<in> set new. pth \<noteq> [] \<and> hd pth = initial_photon_direction sim
                          \<and> successively (z_step (mesh sim) U) pth)"
proof (induction k arbitrary: sim us)
  case 0
  then show ?case by simp
next
  case (Suc k)
  let ?photon = "Photon_init (initial_photon_direction sim) default_direction"
  let ?sim1 = "\<lambda>prof1 p1. sim\<lparr>absorption_profile := prof1,
                              photon_paths := photon_paths sim @ [path p1]\<rparr>"
  obtain prof1 p1 us1 where
    trial: "run_while (mesh sim) (absorption_profile sim) ?photon us = Inr (prof1, p1, us1)"
    and rest: "run_for k (?sim1 prof1 p1) us1 = Inr (sim', us')"
    using Suc.prems(1) by (auto simp: Let_def split: sum.splits)
  have mem: "(prof1, p1, us1) \<in> set (run_while_trace (mesh sim) (absorption_profile sim) ?photon us)"
    using trial by (rule run_while_in_trace)
  have "\<forall>s \<in> set (run_while_trace (mesh sim) (absorption_profile sim) ?photon us).
           direction (fst (snd s)) = (0, 0, 1) \<and> path (fst (snd s)) \<noteq> []
           \<and> hd (path (fst (snd s))) = initial_photon_direction sim
           \<and> successively (z_step (mesh sim) U) (path (fst (snd s)))
           \<and> set (snd (snd s)) \<subseteq> set U"
    using Suc.prems(2)
    by (intro run_while_trace_along) (simp_all add: Photon_init_def default_direction_def)
  with mem have p1: "path p1 \<noteq> []" "hd (path p1) = initial_photon_direction sim"
    "successively (z_step (mesh sim) U) (path p1)" and sub: "set us1 \<subseteq> set U"
    by fastforce+
  from Suc.IH [OF rest sub] obtain new where
    new: "photon_paths sim' = (photon_paths sim @ [path p1]) @ new"
      "\<forall>pth \<in> set new. pth \<noteq> [] \<and> hd pth = initial_photon_direction sim
                          \<and> successively (z_step (mesh sim) U) pth"
    by auto
  have "photon_paths sim' = photon_paths sim @ (path p1 # new)" using new(1) by simp
  moreover have "\<forall>pth \<in> set (path p1 # new). pth \<noteq> [] \<and> hd pth = initial_photon_direction sim
                          \<and> successively (z_step (mesh sim) U) pth"
    using new(2) p1 by simp
  ultimately show ?case by blast
qed

text \<open>C2. \<^verbatim>\<open>run\<close> constructs each photon as \<^verbatim>\<open>Photon(self.initial_photon_direction)\<close>:
  every trial of the loop over the photons starts the \<^verbatim>\<open>while\<close> loop from the photon
  whose position and only path entry are the vector given as initial direction and
  whose direction is the dataclass default \<open>(0, 0, 1)\<close>. At every state of the trial the
  direction is \<open>(0, 0, 1)\<close> and the path starts at that vector. Every path that \<^verbatim>\<open>run\<close>
  records starts at that vector and advances from each position to the next along
  \<open>(0, 0, 1)\<close> by a sampled free path.\<close>

theorem run_photon_at_direction_vector:
  "run_for (Suc k) sim us =
     (case run_while (mesh sim) (absorption_profile sim)
             \<lparr>position = initial_photon_direction sim, direction = (0, 0, 1),
              path = [initial_photon_direction sim], weight = 1, alive = True\<rparr> us of
        Inl e \<Rightarrow> Inl e
      | Inr (prof', p', us') \<Rightarrow>
          run_for k (sim\<lparr>absorption_profile := prof',
                         photon_paths := photon_paths sim @ [path p']\<rparr>) us')
   \<and> (\<forall>(prof', p', us') \<in> set (run_while_trace (mesh sim) prof
            \<lparr>position = initial_photon_direction sim, direction = (0, 0, 1),
             path = [initial_photon_direction sim], weight = 1, alive = True\<rparr> us).
        direction p' = (0, 0, 1) \<and> position p' = initial_photon_direction sim
        \<and> hd (path p') = initial_photon_direction sim)
   \<and> (\<forall>sim' us'. run sim us = Inr (sim', us') \<longrightarrow>
        (\<forall>pth \<in> set (drop (length (photon_paths sim)) (photon_paths sim')).
           pth \<noteq> [] \<and> hd pth = initial_photon_direction sim
           \<and> successively (z_step (mesh sim) us) pth))"
proof -
  let ?photon = "\<lparr>position = initial_photon_direction sim, direction = (0, 0, 1),
              path = [initial_photon_direction sim], weight = 1, alive = True\<rparr> :: photon"
  have built: "Photon_init (initial_photon_direction sim) default_direction = ?photon"
    by (simp add: Photon_init_def default_direction_def)
  have loop: "run_for (Suc k) sim us =
     (case run_while (mesh sim) (absorption_profile sim) ?photon us of
        Inl e \<Rightarrow> Inl e
      | Inr (prof', p', us') \<Rightarrow>
          run_for k (sim\<lparr>absorption_profile := prof',
                         photon_paths := photon_paths sim @ [path p']\<rparr>) us')"
    by (simp add: built Let_def)
  have "\<forall>s \<in> set (run_while_trace (mesh sim) prof ?photon us).
           direction (fst (snd s)) = (0, 0, 1)
           \<and> position (fst (snd s)) = initial_photon_direction sim
           \<and> path (fst (snd s)) \<noteq> [] \<and> hd (path (fst (snd s))) = initial_photon_direction sim"
    by (rule run_while_trace_photon) simp_all
  then have trace: "\<forall>(prof', p', us') \<in> set (run_while_trace (mesh sim) prof ?photon us).
        direction p' = (0, 0, 1) \<and> position p' = initial_photon_direction sim
        \<and> hd (path p') = initial_photon_direction sim"
    by auto
  have paths: "\<forall>sim' us'. run sim us = Inr (sim', us') \<longrightarrow>
        (\<forall>pth \<in> set (drop (length (photon_paths sim)) (photon_paths sim')).
           pth \<noteq> [] \<and> hd pth = initial_photon_direction sim
           \<and> successively (z_step (mesh sim) us) pth)"
  proof (intro allI impI)
    fix sim' us' assume "run sim us = Inr (sim', us')"
    then have "run_for (nat (num_photons sim)) sim us = Inr (sim', us')" by (simp add: run_def)
    from run_for_along [OF this subset_refl] obtain new where
      "photon_paths sim' = photon_paths sim @ new"
      "\<forall>pth \<in> set new. pth \<noteq> [] \<and> hd pth = initial_photon_direction sim
                          \<and> successively (z_step (mesh sim) us) pth"
      by blast
    then show "\<forall>pth \<in> set (drop (length (photon_paths sim)) (photon_paths sim')).
           pth \<noteq> [] \<and> hd pth = initial_photon_direction sim
           \<and> successively (z_step (mesh sim) us) pth" by simp
  qed
  from loop trace paths show ?thesis by (intro conjI)
qed

theorem run_photon_at_direction_vector_witness:
  "run (MonteCarloSimulator_init one_layer 1 (1, 0, 0)) [exp (- 11)]
   = Inr (\<lparr>mesh = one_layer, num_photons = 1, initial_photon_direction = (1, 0, 0),
           photon_paths = [[(1, 0, 0), (1, 0, 11)]], absorption_profile = [11 / 100]\<rparr>, [])
   \<and> hd [(1, 0, 0), (1, 0, 11 :: real)] = (1 :: real, 0 :: real, 0 :: real)
   \<and> successively (z_step one_layer [exp (- 11)]) [(1, 0, 0), (1, 0, 11)]"
  using run_photon_at_direction_vector
      [where sim = "MonteCarloSimulator_init one_layer 1 (1, 0, 0)" and us = "[exp (- 11)]"]
    one_layer_run
  by (simp add: MonteCarloSimulator_init_def)

subsection \<open>The path collection\<close>

text \<open>Two trials on the mesh with boundaries \<open>[0, 10]\<close>: a first step longer than \<open>10\<close>
  takes the photon out of the mesh, and the next iteration ends the trial.\<close>

lemma one_layer_escape:
  assumes t: "10 < t"
  shows "run_while one_layer [a] (Photon_init (1, 0, 0) default_direction) (exp (- t) # us)
   = Inr ([a + t / 100],
          \<lparr>position = (1, 0, 0), direction = (0, 0, 1), path = [(1, 0, 0), (1, 0, t)],
           weight = 1 - t / 100, alive = False\<rparr>,
          us)"
proof -
  let ?p1 = "\<lparr>position = (1, 0, 0), direction = (0, 0, 1), path = [(1, 0, 0), (1, 0, t)],
           weight = 1 - t / 100, alive = True\<rparr> :: photon"
  have first: "run_loop_body one_layer [a] (Photon_init (1, 0, 0) default_direction) (exp (- t) # us)
      = Inr ([a + t / 100], ?p1, us)"
    by (simp add: run_loop_body_def one_layer_index Photon_init_def zcoord_def py_get_def py_set_def
      next_draw_def dict_get_def tissue_def np_log_def np_divide_def move_def Let_def
      check_weight_def default_threshold_def default_direction_def vec_add_def vec_scale_def
      one_layer_def [THEN arg_cong, of layer_boundaries]
      one_layer_def [THEN arg_cong, of layer_properties])
  have second: "run_loop_body one_layer [a + t / 100] ?p1 us
      = Inr ([a + t / 100], ?p1\<lparr>alive := False\<rparr>, us)"
    using t by (intro run_loop_body_outside) (simp_all add: one_layer_def zcoord_def)
  have "run_while one_layer [a] (Photon_init (1, 0, 0) default_direction) (exp (- t) # us)
        = run_while one_layer [a + t / 100] ?p1 us"
    by (rule run_while_step [OF _ first]) (simp add: Photon_init_def)
  also have "\<dots> = run_while one_layer [a + t / 100] (?p1\<lparr>alive := False\<rparr>) us"
    by (rule run_while_step [OF _ second]) simp
  also have "\<dots> = Inr ([a + t / 100], ?p1\<lparr>alive := False\<rparr>, us)"
    by (rule run_while_dead) simp
  finally show ?thesis by simp
qed

lemma one_layer_two_photons:
  "run (MonteCarloSimulator_init one_layer 2 (1, 0, 0)) [exp (- 11), exp (- 12)]
   = Inr (\<lparr>mesh = one_layer, num_photons = 2, initial_photon_direction = (1, 0, 0),
           photon_paths = [[(1, 0, 0), (1, 0, 11)], [(1, 0, 0), (1, 0, 12)]],
           absorption_profile = [23 / 100]\<rparr>, [])"
  by (simp add: run_def MonteCarloSimulator_init_def numeral_2_eq_2 one_layer_escape
      one_layer_def [THEN arg_cong, of layer_boundaries])

text \<open>C10. A run of a fresh simulator with \<open>num_photons \<ge> 0\<close> that completes leaves
  exactly \<open>num_photons\<close> paths. The paths are in trial order: the paths present after
  \<open>k\<close> trials stay in place, and trial \<open>k + 1\<close> appends its path behind them. With
  \<open>num_photons = 0\<close> the run changes nothing: the path collection is empty and the
  absorption profile is all zeros, of length the number of boundaries minus one.\<close>

theorem run_records_one_path_per_trial:
  "(0 \<le> n \<longrightarrow>
      (\<forall>sim' us'. run (MonteCarloSimulator_init m n dir) us = Inr (sim', us')
         \<longrightarrow> int (length (photon_paths sim')) = n))
   \<and> (\<forall>k sim_k us_k. run_for k sim us = Inr (sim_k, us_k) \<longrightarrow>
        photon_paths sim = take (length (photon_paths sim)) (photon_paths sim_k)
        \<and> length (photon_paths sim_k) = length (photon_paths sim) + k
        \<and> run_for (Suc k) sim us =
            (case run_while (mesh sim) (absorption_profile sim_k)
                    (Photon_init (initial_photon_direction sim) default_direction) us_k of
               Inl e \<Rightarrow> Inl e
             | Inr (prof', p', us') \<Rightarrow>
                 Inr (sim_k\<lparr>absorption_profile := prof',
                            photon_paths := photon_paths sim_k @ [path p']\<rparr>, us')))
   \<and> run (MonteCarloSimulator_init m 0 dir) us = Inr (MonteCarloSimulator_init m 0 dir, us)
   \<and> photon_paths (MonteCarloSimulator_init m 0 dir) = []
   \<and> absorption_profile (MonteCarloSimulator_init m 0 dir)
       = replicate (length (layer_boundaries m) - 1) 0"
proof -
  have count: "0 \<le> n \<longrightarrow>
      (\<forall>sim' us'. run (MonteCarloSimulator_init m n dir) us = Inr (sim', us')
         \<longrightarrow> int (length (photon_paths sim')) = n)"
  proof (intro impI allI)
    fix sim' us'
    assume n: "0 \<le> n" and ret: "run (MonteCarloSimulator_init m n dir) us = Inr (sim', us')"
    from ret have "run_for (nat n) (MonteCarloSimulator_init m n dir) us = Inr (sim', us')"
      by (simp add: run_def MonteCarloSimulator_init_def)
    from run_for_paths [OF this] obtain new where
      "photon_paths sim' = photon_paths (MonteCarloSimulator_init m n dir) @ new"
      "length new = nat n" by blast
    then have "length (photon_paths sim') = nat n" by (simp add: MonteCarloSimulator_init_def)
    with n show "int (length (photon_paths sim')) = n" by simp
  qed
  have order: "\<forall>k sim_k us_k. run_for k sim us = Inr (sim_k, us_k) \<longrightarrow>
        photon_paths sim = take (length (photon_paths sim)) (photon_paths sim_k)
        \<and> length (photon_paths sim_k) = length (photon_paths sim) + k
        \<and> run_for (Suc k) sim us =
            (case run_while (mesh sim) (absorption_profile sim_k)
                    (Photon_init (initial_photon_direction sim) default_direction) us_k of
               Inl e \<Rightarrow> Inl e
             | Inr (prof', p', us') \<Rightarrow>
                 Inr (sim_k\<lparr>absorption_profile := prof',
                            photon_paths := photon_paths sim_k @ [path p']\<rparr>, us'))"
  proof (intro impI allI)
    fix k sim_k us_k
    assume ret: "run_for k sim us = Inr (sim_k, us_k)"
    from run_for_paths [OF ret] obtain new where
      same: "mesh sim_k = mesh sim" "initial_photon_direction sim_k = initial_photon_direction sim"
      and new: "photon_paths sim_k = photon_paths sim @ new" "length new = k"
      by blast
    have "run_for (k + Suc 0) sim us = run_for (Suc 0) sim_k us_k"
      unfolding run_for_add [of k "Suc 0" sim us] ret by simp
    then have "run_for (Suc k) sim us =
            (case run_while (mesh sim) (absorption_profile sim_k)
                    (Photon_init (initial_photon_direction sim) default_direction) us_k of
               Inl e \<Rightarrow> Inl e
             | Inr (prof', p', us') \<Rightarrow>
                 Inr (sim_k\<lparr>absorption_profile := prof',
                            photon_paths := photon_paths sim_k @ [path p']\<rparr>, us'))"
      using same by (simp add: Let_def split: sum.splits)
    with new show "photon_paths sim = take (length (photon_paths sim)) (photon_paths sim_k)
        \<and> length (photon_paths sim_k) = length (photon_paths sim) + k
        \<and> run_for (Suc k) sim us =
            (case run_while (mesh sim) (absorption_profile sim_k)
                    (Photon_init (initial_photon_direction sim) default_direction) us_k of
               Inl e \<Rightarrow> Inl e
             | Inr (prof', p', us') \<Rightarrow>
                 Inr (sim_k\<lparr>absorption_profile := prof',
                            photon_paths := photon_paths sim_k @ [path p']\<rparr>, us'))"
      by simp
  qed
  have zero: "run (MonteCarloSimulator_init m 0 dir) us = Inr (MonteCarloSimulator_init m 0 dir, us)"
    by (simp add: run_def MonteCarloSimulator_init_def)
  have empty: "photon_paths (MonteCarloSimulator_init m 0 dir) = []"
    by (simp add: MonteCarloSimulator_init_def)
  have zeros: "absorption_profile (MonteCarloSimulator_init m 0 dir)
       = replicate (length (layer_boundaries m) - 1) 0"
    by (simp add: MonteCarloSimulator_init_def map_replicate_const)
  from count order zero empty zeros show ?thesis by (intro conjI)
qed

theorem run_records_one_path_per_trial_witness:
  "run (MonteCarloSimulator_init one_layer 2 (1, 0, 0)) [exp (- 11), exp (- 12)]
   = Inr (\<lparr>mesh = one_layer, num_photons = 2, initial_photon_direction = (1, 0, 0),
           photon_paths = [[(1, 0, 0), (1, 0, 11)], [(1, 0, 0), (1, 0, 12)]],
           absorption_profile = [23 / 100]\<rparr>, [])
   \<and> int (length [[(1, 0, 0), (1, 0, 11 :: real)], [(1, 0, 0), (1, 0, 12)]]) = 2
   \<and> run (MonteCarloSimulator_init one_layer 0 (1, 0, 0)) [exp (- 11)]
     = Inr (MonteCarloSimulator_init one_layer 0 (1, 0, 0), [exp (- 11)])
   \<and> photon_paths (MonteCarloSimulator_init one_layer 0 (1, 0, 0)) = []
   \<and> absorption_profile (MonteCarloSimulator_init one_layer 0 (1, 0, 0)) = [0]"
  using run_records_one_path_per_trial
      [where n = 2 and m = one_layer and dir = "(1, 0, 0)" and us = "[exp (- 11), exp (- 12)]"]
    run_records_one_path_per_trial
      [where m = one_layer and dir = "(1, 0, 0)" and us = "[exp (- 11)]"]
    one_layer_two_photons
  by (simp add: one_layer_def [THEN arg_cong, of layer_boundaries])

subsection \<open>The weight during a trial\<close>

text \<open>An iteration whose step is finite with \<open>mu_a * step \<le> 1\<close> maps a non-negative
  weight to a non-negative weight that is not larger; so does an iteration that takes
  no step.\<close>

lemma run_loop_body_weight_step:
  assumes layers: "nonneg_layers m" and unit: "unit_draws us"
    and bound: "step_taken_bounded m (prof, p, us)" and live: "alive p"
    and w: "0 \<le> weight p"
    and body: "run_loop_body m prof p us = Inr (prof', p', us')"
  shows "0 \<le> weight p' \<and> weight p' \<le> weight p \<and> unit_draws us'"
proof (cases "hd (layer_boundaries m) \<le> zcoord (last (path p))
              \<and> zcoord (last (path p)) \<le> last (layer_boundaries m)")
  case False
  have ne: "path p \<noteq> []" "layer_boundaries m \<noteq> []"
    using run_loop_body_nonempty [OF body] by simp_all
  from False have "zcoord (last (path p)) < hd (layer_boundaries m)
         \<or> last (layer_boundaries m) < zcoord (last (path p))" by auto
  from run_loop_body_outside [OF ne this, of prof us] body
  have "p' = p\<lparr>alive := False\<rparr>" "us' = us" by simp_all
  with w unit show ?thesis by simp
next
  case True
  have ne: "path p \<noteq> []" "layer_boundaries m \<noteq> []"
    using run_loop_body_nonempty [OF body] by simp_all
  from run_loop_body_inside [OF body] True obtain u layer_index layer_props mu_s mu_a where
    us: "us = u # us'"
    and idx: "get_layer_index m (zcoord (last (path p))) = Inr layer_index"
    and props: "py_get (layer_properties m) layer_index = Inr layer_props"
    and mu_s: "layer_props ''mu_s'' = Some mu_s" and mu_a: "layer_props ''mu_a'' = Some mu_a"
    and wp: "weight p' = weight p * (1 - mu_a * (- ln u / mu_s))"
    by blast
  have "step_within_bound m p us"
    using bound live ne True by (simp add: step_taken_bounded_def)
  then have u0: "0 < u" and le1: "mu_a * (- ln u / mu_s) \<le> 1"
    by (simp_all add: step_within_bound_def us idx props mu_s mu_a)
  have u1: "u < 1" using unit us by (simp add: unit_draws_def)
  have mem: "layer_props \<in> set (layer_properties m)" using props by (rule py_get_Inr_mem)
  have coeff: "0 \<le> mu_a" "0 < mu_s"
    using layers mem mu_s mu_a by (auto simp: nonneg_layers_def list_all_iff)
  have "ln u < 0" using u0 u1 by simp
  then have "0 \<le> - ln u / mu_s" using coeff(2) by (simp add: divide_nonpos_pos)
  then have ge0: "0 \<le> mu_a * (- ln u / mu_s)" using coeff(1) by (rule mult_nonneg_nonneg [rotated])
  define f where "f = mu_a * (- ln u / mu_s)"
  have f: "0 \<le> f" "f \<le> 1" using ge0 le1 by (simp_all add: f_def)
  have wp': "weight p' = weight p * (1 - f)" using wp by (simp add: f_def)
  have "0 \<le> weight p * (1 - f)" using w f by (intro mult_nonneg_nonneg) simp_all
  moreover have "weight p * (1 - f) \<le> weight p * 1"
    using w f by (intro mult_left_mono) simp_all
  moreover have "unit_draws us'" using unit us by (simp add: unit_draws_def)
  ultimately show ?thesis using wp' by simp
qed

lemma run_while_trace_steps_bounded:
  assumes "nonneg_layers m" and "unit_draws us"
    and "\<forall>s \<in> set (run_while_trace m prof p us). step_taken_bounded m s"
    and "0 \<le> weight p"
  shows "(\<forall>s \<in> set (run_while_trace m prof p us).
            0 \<le> weight (fst (snd s)) \<and> weight (fst (snd s)) \<le> weight p)
       \<and> sorted_wrt (\<lambda>s t. weight (fst (snd t)) \<le> weight (fst (snd s)))
            (run_while_trace m prof p us)"
  using assms
proof (induction m prof p us rule: run_while_trace.induct)
  case (1 m prof p us)
  note layers = "1.prems"(1) and unit = "1.prems"(2) and bounded = "1.prems"(3)
    and w = "1.prems"(4)
  show ?case
  proof (cases "alive p")
    case False
    with w show ?thesis by (simp add: run_while_trace_dead)
  next
    case True
    show ?thesis
    proof (cases "run_loop_body m prof p us")
      case (Inl e)
      with True w show ?thesis by (simp add: run_while_trace_raise)
    next
      case (Inr r)
      obtain prof1 p1 us1 where r: "r = (prof1, p1, us1)" by (cases r) auto
      have body: "run_loop_body m prof p us = Inr (prof1, p1, us1)" using Inr r by simp
      have unfold: "run_while_trace m prof p us = (prof, p, us) # run_while_trace m prof1 p1 us1"
        using True body by (rule run_while_trace_step)
      have here: "step_taken_bounded m (prof, p, us)"
        and later: "\<forall>s \<in> set (run_while_trace m prof1 p1 us1). step_taken_bounded m s"
        using bounded unfolding unfold by simp_all
      from run_loop_body_weight_step [OF layers unit here True w body]
      have next_state: "0 \<le> weight p1" "weight p1 \<le> weight p" "unit_draws us1" by simp_all
      from "1.IH" [OF True Inr [unfolded r] refl refl layers next_state(3) later next_state(1)]
      have range: "\<forall>s \<in> set (run_while_trace m prof1 p1 us1).
            0 \<le> weight (fst (snd s)) \<and> weight (fst (snd s)) \<le> weight p1"
        and tail: "sorted_wrt (\<lambda>s t. weight (fst (snd t)) \<le> weight (fst (snd s)))
            (run_while_trace m prof1 p1 us1)"
        by simp_all
      from range next_state(2)
      have range': "\<forall>s \<in> set (run_while_trace m prof1 p1 us1).
            0 \<le> weight (fst (snd s)) \<and> weight (fst (snd s)) \<le> weight p"
        by fastforce
      with tail w show ?thesis unfolding unfold by simp
    qed
  qed
qed

lemma one_layer_states:
  assumes t: "10 < t"
  shows "run_while_trace one_layer [a] (Photon_init (1, 0, 0) default_direction) (exp (- t) # us)
         = [([a], \<lparr>position = (1, 0, 0), direction = (0, 0, 1), path = [(1, 0, 0)],
                   weight = 1, alive = True\<rparr>, exp (- t) # us),
            ([a + t / 100], \<lparr>position = (1, 0, 0), direction = (0, 0, 1),
                   path = [(1, 0, 0), (1, 0, t)], weight = 1 - t / 100, alive = True\<rparr>, us),
            ([a + t / 100], \<lparr>position = (1, 0, 0), direction = (0, 0, 1),
                   path = [(1, 0, 0), (1, 0, t)], weight = 1 - t / 100, alive = False\<rparr>, us)]"
proof -
  let ?p1 = "\<lparr>position = (1, 0, 0), direction = (0, 0, 1), path = [(1, 0, 0), (1, 0, t)],
           weight = 1 - t / 100, alive = True\<rparr> :: photon"
  have first: "run_loop_body one_layer [a] (Photon_init (1, 0, 0) default_direction) (exp (- t) # us)
      = Inr ([a + t / 100], ?p1, us)"
    by (simp add: run_loop_body_def one_layer_index Photon_init_def zcoord_def py_get_def py_set_def
      next_draw_def dict_get_def tissue_def np_log_def np_divide_def move_def Let_def
      check_weight_def default_threshold_def default_direction_def vec_add_def vec_scale_def
      one_layer_def [THEN arg_cong, of layer_boundaries]
      one_layer_def [THEN arg_cong, of layer_properties])
  have second: "run_loop_body one_layer [a + t / 100] ?p1 us
      = Inr ([a + t / 100], ?p1\<lparr>alive := False\<rparr>, us)"
    using t by (intro run_loop_body_outside) (simp_all add: one_layer_def zcoord_def)
  have "run_while_trace one_layer [a] (Photon_init (1, 0, 0) default_direction) (exp (- t) # us)
        = ([a], Photon_init (1, 0, 0) default_direction, exp (- t) # us)
          # run_while_trace one_layer [a + t / 100] ?p1 us"
    by (rule run_while_trace_step [OF _ first]) (simp add: Photon_init_def)
  moreover have "run_while_trace one_layer [a + t / 100] ?p1 us
        = ([a + t / 100], ?p1, us) # run_while_trace one_layer [a + t / 100] (?p1\<lparr>alive := False\<rparr>) us"
    by (rule run_while_trace_step [OF _ second]) simp
  moreover have "run_while_trace one_layer [a + t / 100] (?p1\<lparr>alive := False\<rparr>) us
        = [([a + t / 100], ?p1\<lparr>alive := False\<rparr>, us)]"
    by (rule run_while_trace_dead) simp
  ultimately show ?thesis by (simp add: Photon_init_def default_direction_def)
qed

text \<open>C6 (as amended). On a mesh whose layers all have \<open>mu_a \<ge> 0\<close> and \<open>mu_s > 0\<close>,
  with uniform draws in \<open>[0, 1)\<close>, within every trial in which every step taken is
  finite and keeps \<open>mu_a * step \<le> 1\<close>, the weight of the photon starts at \<open>1\<close>, lies in
  \<open>[0, 1]\<close> at every state the loop passes through, and does not increase from one
  state to a later one. The condition is on the steps the trial takes: draws that are
  not used and layers that are not visited are not constrained.\<close>

theorem trial_weight_while_steps_bounded:
  assumes "nonneg_layers m" and "unit_draws us"
    and "\<forall>s \<in> set (run_while_trace m prof (Photon_init pos dir) us). step_taken_bounded m s"
  shows "weight (Photon_init pos dir) = 1
     \<and> (\<forall>(prof', p', us') \<in> set (run_while_trace m prof (Photon_init pos dir) us).
           0 \<le> weight p' \<and> weight p' \<le> 1)
     \<and> sorted_wrt (\<lambda>s t. weight (fst (snd t)) \<le> weight (fst (snd s)))
          (run_while_trace m prof (Photon_init pos dir) us)"
proof -
  have start: "weight (Photon_init pos dir) = 1" by (simp add: Photon_init_def)
  then have w: "0 \<le> weight (Photon_init pos dir)" by simp
  note both = run_while_trace_steps_bounded [OF assms w]
  from both have "\<forall>s \<in> set (run_while_trace m prof (Photon_init pos dir) us).
           0 \<le> weight (fst (snd s)) \<and> weight (fst (snd s)) \<le> weight (Photon_init pos dir)"
    by (rule conjunct1)
  then have range: "\<forall>(prof', p', us') \<in> set (run_while_trace m prof (Photon_init pos dir) us).
           0 \<le> weight p' \<and> weight p' \<le> 1"
    unfolding start by auto
  from both have "sorted_wrt (\<lambda>s t. weight (fst (snd t)) \<le> weight (fst (snd s)))
          (run_while_trace m prof (Photon_init pos dir) us)"
    by (rule conjunct2)
  with start range show ?thesis by simp
qed

theorem trial_weight_while_steps_bounded_witness:
  "nonneg_layers one_layer \<and> unit_draws [exp (- 11), exp (- 1000)]
   \<and> list_all (step_taken_bounded one_layer)
        (run_while_trace one_layer [0] (Photon_init (1, 0, 0) default_direction)
           [exp (- 11), exp (- 1000)])
   \<and> map (\<lambda>s. weight (fst (snd s)))
        (run_while_trace one_layer [0] (Photon_init (1, 0, 0) default_direction)
           [exp (- 11), exp (- 1000)])
      = [1, 89 / 100, 89 / 100]
   \<and> sorted_wrt (\<lambda>s t. weight (fst (snd t)) \<le> weight (fst (snd s)))
        (run_while_trace one_layer [0] (Photon_init (1, 0, 0) default_direction)
           [exp (- 11), exp (- 1000)])"
proof -
  let ?tr = "run_while_trace one_layer [0] (Photon_init (1, 0, 0) default_direction)
           [exp (- 11), exp (- 1000)]"
  have layers: "nonneg_layers one_layer"
    by (simp add: nonneg_layers_def one_layer_def tissue_lookup)
  have unit: "unit_draws [exp (- 11), exp (- 1000)]" by (simp add: unit_draws_def)
  note states = one_layer_states [of 11 0 "[exp (- 1000)]", simplified]
  have bounded: "list_all (step_taken_bounded one_layer) ?tr"
    unfolding states
    by (simp add: step_taken_bounded_def step_within_bound_def one_layer_index zcoord_def
        py_get_def tissue_lookup
        one_layer_def [THEN arg_cong, of layer_boundaries]
        one_layer_def [THEN arg_cong, of layer_properties])
  then have hyp: "\<forall>s \<in> set ?tr. step_taken_bounded one_layer s"
    by (simp add: list_all_iff)
  have weights: "map (\<lambda>s. weight (fst (snd s))) ?tr = [1, 89 / 100, 89 / 100]"
    unfolding states by simp
  from trial_weight_while_steps_bounded [OF layers unit hyp] layers unit bounded weights
  show ?thesis by simp
qed

text \<open>A draw \<open>u = 0\<close> that is used for a step is excluded by the condition: the step the
  code computes from it is infinite.\<close>

lemma zero_draw_not_bounded:
  "\<not> step_taken_bounded one_layer ([0], Photon_init (1, 0, 0) default_direction, [0])"
  by (simp add: step_taken_bounded_def step_within_bound_def one_layer_index zcoord_def
      py_get_def tissue_lookup Photon_init_def
      one_layer_def [THEN arg_cong, of layer_boundaries]
      one_layer_def [THEN arg_cong, of layer_properties])

text \<open>Without the bound on \<open>mu_a * step\<close> the claim fails: with \<open>mu_a = 2\<close>, \<open>mu_s = 1\<close>
  and two draws \<open>exp(-1)\<close> (two steps of length \<open>1\<close>), the weights at the three states of
  the trial are \<open>1\<close>, \<open>-1\<close> and \<open>1\<close>. The first rescaling, by \<open>1 - 2\<close>, makes the weight
  negative; the second iteration, in which \<^verbatim>\<open>check_weight\<close> ends the photon, rescales
  it once more and makes it larger.\<close>

lemma absorbing_layer_index:
  "get_layer_index absorbing_layer 1 = Inr 0" "get_layer_index absorbing_layer 2 = Inr 0"
  by (simp_all add: get_layer_index_def absorbing_layer_def searchsorted_right_def
      binsearch_right.simps)

lemma absorber_lookup:
  "absorber ''n'' = Some 1" "absorber ''mu_s'' = Some 1"
  "absorber ''mu_a'' = Some 2" "absorber ''g'' = Some 0"
  by (simp_all add: absorber_def)

theorem trial_weight_negative_counterexample:
  "nonneg_layers absorbing_layer \<and> unit_draws [exp (- 1), exp (- 1)]
   \<and> map (\<lambda>s. weight (fst (snd s)))
        (run_while_trace absorbing_layer [0] (Photon_init (0, 0, 1) default_direction)
           [exp (- 1), exp (- 1)])
      = [1, - 1, 1]"
proof -
  let ?p0 = "Photon_init (0, 0, 1) default_direction"
  let ?p1 = "\<lparr>position = (0, 0, 1), direction = (0, 0, 1), path = [(0, 0, 1), (0, 0, 2)],
           weight = - 1, alive = True\<rparr> :: photon"
  let ?p2 = "\<lparr>position = (0, 0, 1), direction = (0, 0, 1),
           path = [(0, 0, 1), (0, 0, 2), (0, 0, 3)], weight = 1, alive = False\<rparr> :: photon"
  have layers: "nonneg_layers absorbing_layer"
    by (simp add: nonneg_layers_def absorbing_layer_def absorber_lookup)
  have unit: "unit_draws [exp (- 1), exp (- 1)]" by (simp add: unit_draws_def)
  have first: "run_loop_body absorbing_layer [0] ?p0 [exp (- 1), exp (- 1)]
      = Inr ([2], ?p1, [exp (- 1)])"
    by (simp add: run_loop_body_def absorbing_layer_index Photon_init_def zcoord_def py_get_def
      py_set_def next_draw_def dict_get_def absorber_lookup np_log_def np_divide_def move_def Let_def
      check_weight_def default_threshold_def default_direction_def vec_add_def vec_scale_def
      absorbing_layer_def [THEN arg_cong, of layer_boundaries]
      absorbing_layer_def [THEN arg_cong, of layer_properties])
  have second: "run_loop_body absorbing_layer [2] ?p1 [exp (- 1)] = Inr ([0], ?p2, [])"
    by (simp add: run_loop_body_def absorbing_layer_index zcoord_def py_get_def
      py_set_def next_draw_def dict_get_def absorber_lookup np_log_def np_divide_def move_def Let_def
      check_weight_def default_threshold_def vec_add_def vec_scale_def
      absorbing_layer_def [THEN arg_cong, of layer_boundaries]
      absorbing_layer_def [THEN arg_cong, of layer_properties])
  have "run_while_trace absorbing_layer [0] ?p0 [exp (- 1), exp (- 1)]
        = ([0], ?p0, [exp (- 1), exp (- 1)]) # run_while_trace absorbing_layer [2] ?p1 [exp (- 1)]"
    by (rule run_while_trace_step [OF _ first]) (simp add: Photon_init_def)
  moreover have "run_while_trace absorbing_layer [2] ?p1 [exp (- 1)]
        = ([2], ?p1, [exp (- 1)]) # run_while_trace absorbing_layer [0] ?p2 []"
    by (rule run_while_trace_step [OF _ second]) simp
  moreover have "run_while_trace absorbing_layer [0] ?p2 [] = [([0], ?p2, [])]"
    by (rule run_while_trace_dead) simp
  ultimately have "map (\<lambda>s. weight (fst (snd s)))
        (run_while_trace absorbing_layer [0] ?p0 [exp (- 1), exp (- 1)]) = [1, - 1, 1]"
    by (simp add: Photon_init_def)
  with layers unit show ?thesis by simp
qed

end
